theory Spec2Isabelle
  imports Main "HOL-Library.AList"
begin

section \<open>JavaScript values\<close>

text \<open>
  The plugin (\<^verbatim>\<open>dist/image-processor.js\<close>) is dynamically typed. A string of the language
  is a list of UTF-16 code units; \<open>str\<close> gives the code units of an ASCII literal.
\<close>

datatype js_error = TypeError

type_synonym jsstring = "nat list"

definition str :: "string \<Rightarrow> jsstring" where
  "str s = map of_char s"

text \<open>
  The values that can be configured as a dimension. A finite number is an integer, or a
  decimal \<open>m * 10^e\<close>, which covers every fraction and every magnitude of a double. An
  array or another object that has no \<open>valueOf\<close> of its own is given by the string that
  its \<open>toString\<close> returns (for an array, its elements joined by commas), which is all
  that \<open>parseInt\<close> and \<open>attr\<close> read of it.
\<close>

datatype jsval =
    JUndefined
  | JNull
  | JBool bool
  | JNaN
  | JInfinity bool  \<comment> \<open>\<open>True\<close> is \<open>-Infinity\<close>\<close>
  | JNum int
  | JDec int int  \<comment> \<open>mantissa and decimal exponent\<close>
  | JStr jsstring
  | JObject jsstring

definition digit_char :: "nat \<Rightarrow> nat" where
  "digit_char n = 48 + n"

fun dec :: "nat \<Rightarrow> jsstring" where
  "dec n = (if n < 10 then [digit_char n] else dec (n div 10) @ [digit_char (n mod 10)])"

declare dec.simps [simp del]

text \<open>
  \<open>Number::toString\<close> of the language, for a number \<open>m * 10^e\<close>. With \<open>s\<close> the digits of the
  magnitude without trailing zeros, \<open>k\<close> their count and \<open>n\<close> the position of the decimal
  point, the number is written in full when \<open>k \<le> n \<le> 21\<close>, with a decimal point when
  \<open>0 < n \<le> 21\<close>, with leading \<open>0.\<close> when \<open>-6 < n \<le> 0\<close>, and in exponent notation
  otherwise. The code units are those of \<open>0\<close> (48), \<open>.\<close> (46), \<open>e\<close> (101), \<open>+\<close> (43) and
  \<open>-\<close> (45).
\<close>

fun strip_zeros :: "nat \<Rightarrow> int \<Rightarrow> nat \<times> int" where
  "strip_zeros s e = (if s \<noteq> 0 \<and> s mod 10 = 0 then strip_zeros (s div 10) (e + 1) else (s, e))"

declare strip_zeros.simps [simp del]

definition layout :: "jsstring \<Rightarrow> int \<Rightarrow> jsstring" where
  "layout ds n =
     (let k = int (length ds)
      in if k \<le> n \<and> n \<le> 21 then ds @ replicate (nat (n - k)) 48
         else if 0 < n \<and> n \<le> 21 then take (nat n) ds @ [46] @ drop (nat n) ds
         else if - 6 < n \<and> n \<le> 0 then [48, 46] @ replicate (nat (- n)) 48 @ ds
         else (if k = 1 then ds else hd ds # 46 # tl ds)
              @ [101] @ (if 0 \<le> n - 1 then [43] else [45]) @ dec (nat \<bar>n - 1\<bar>))"

definition number_string :: "int \<Rightarrow> int \<Rightarrow> jsstring" where
  "number_string m e =
     (if m = 0 then [48]
      else (case strip_zeros (nat \<bar>m\<bar>) e of
              (s, e') \<Rightarrow>
                (let body = layout (dec s) (int (length (dec s)) + e')
                 in if m < 0 then 45 # body else body)))"

text \<open>The abstract operation \<open>ToString\<close> of the language.\<close>

fun ToString :: "jsval \<Rightarrow> jsstring" where
  "ToString JUndefined = str ''undefined''"
| "ToString JNull = str ''null''"
| "ToString (JBool b) = (if b then str ''true'' else str ''false'')"
| "ToString JNaN = str ''NaN''"
| "ToString (JInfinity neg) = (if neg then str ''-Infinity'' else str ''Infinity'')"
| "ToString (JNum n) = number_string n 0"
| "ToString (JDec m e) = number_string m e"
| "ToString (JStr s) = s"
| "ToString (JObject s) = s"

text \<open>
  The white space and line terminators of the language: tab, line feed, vertical tab, form
  feed, carriage return, space, no-break space, the other space separators of Unicode,
  the line and paragraph separators and the byte order mark.
\<close>

definition StrWhiteSpaceChar :: "nat \<Rightarrow> bool" where
  "StrWhiteSpaceChar c \<longleftrightarrow>
     c \<in> set [0x09, 0x0A, 0x0B, 0x0C, 0x0D, 0x20, 0xA0, 0x1680, 0x2028, 0x2029, 0x202F, 0x205F,
               0x3000, 0xFEFF]
     \<or> (0x2000 \<le> c \<and> c \<le> 0x200A)"

definition is_digit :: "nat \<Rightarrow> bool" where
  "is_digit c \<longleftrightarrow> 48 \<le> c \<and> c \<le> 57"

definition digit_value :: "nat \<Rightarrow> nat" where
  "digit_value c = c - 48"

definition parse_digits :: "jsstring \<Rightarrow> nat option" where
  "parse_digits s =
     (let ds = takeWhile is_digit s
      in if ds = [] then None else Some (foldl (\<lambda>acc c. 10 * acc + digit_value c) 0 ds))"

text \<open>
  \<open>parseInt(v, 10)\<close>: the argument is converted to a string, leading white space and one
  sign are dropped, and the longest prefix of decimal digits is read. \<open>None\<close> is \<open>NaN\<close>;
  the plugin reads of the result only whether it is \<open>NaN\<close>.
\<close>

definition parseInt10 :: "jsval \<Rightarrow> int option" where
  "parseInt10 v =
     (let s = dropWhile StrWhiteSpaceChar (ToString v);
          neg = (s \<noteq> [] \<and> hd s = 45);
          r = (if s \<noteq> [] \<and> (hd s = 45 \<or> hd s = 43) then tl s else s)
      in case parse_digits r of
           None \<Rightarrow> None
         | Some n \<Rightarrow> Some (if neg then - int n else int n))"

definition isNaN :: "int option \<Rightarrow> bool" where
  "isNaN x \<longleftrightarrow> x = None"

section \<open>The document\<close>

text \<open>
  The document is a tree of elements. Every element carries a key, which stands for its
  identity as a JavaScript object, its tag, its \<open>id\<close> attribute (empty when it has none),
  its other attributes, its inline style and its children in document order. The root
  of the tree is the document node itself. Elements that are not in the document are
  not represented: an operation on the key of such an element leaves the document as it
  is. Tags are in lower case.
\<close>

datatype elem =
  Elem (key: nat) (tag: string) (ident: string)
       (attrs: "(string \<times> jsstring) list") (style: "(string \<times> string) list")
       (kids: "elem list")

record dom =
  root :: elem
  next_key :: nat

fun flatten :: "elem \<Rightarrow> elem list" where
  "flatten (Elem k t i a s ks) = Elem k t i a s ks # concat (map flatten ks)"

definition descendants :: "elem \<Rightarrow> elem list" where
  "descendants e = concat (map flatten (kids e))"

definition node :: "dom \<Rightarrow> nat \<Rightarrow> elem option" where
  "node d k = find (\<lambda>e. key e = k) (flatten (root d))"

definition in_document :: "dom \<Rightarrow> nat \<Rightarrow> bool" where
  "in_document d k \<longleftrightarrow> node d k \<noteq> None"

definition has_id :: "string \<Rightarrow> elem \<Rightarrow> bool" where
  "has_id i e \<longleftrightarrow> i \<noteq> [] \<and> ident e = i"

definition with_id :: "dom \<Rightarrow> string \<Rightarrow> elem list" where
  "with_id d i = filter (has_id i) (flatten (root d))"

text \<open>
  jQuery takes \<open>"#" + id\<close> for the id itself when the id is made of letters, digits,
  underscores and hyphens (its pattern is \<open>#([\w-]+)\<close>), and a string of letters and
  digits for a tag name. Any other string is parsed as a CSS selector, which may select
  other elements or be a syntax error. The lookups of this model are the literal ones:
  they are what jQuery does for the ids and tags below, and every general statement on
  a lookup assumes such an id or tag.
\<close>

definition word_char :: "char \<Rightarrow> bool" where
  "word_char c \<longleftrightarrow>
     c \<in> set ''abcdefghijklmnopqrstuvwxyzABCDEFGHIJKLMNOPQRSTUVWXYZ0123456789_-''"

definition simple_id :: "string \<Rightarrow> bool" where
  "simple_id i \<longleftrightarrow> i \<noteq> [] \<and> list_all word_char i"

definition simple_tag :: "string \<Rightarrow> bool" where
  "simple_tag t \<longleftrightarrow>
     t \<noteq> [] \<and> list_all (\<lambda>c. c \<in> set ''abcdefghijklmnopqrstuvwxyz0123456789'') t"

text \<open>
  What \<open>$(target)\<close> is given: a selector string or an element. The selectors of the
  plugin are a tag name (\<open>"body"\<close>) and \<open>"#" + id\<close>; a jQuery object is the list of the
  keys of the matched elements. \<open>$("#" + id)\<close> is \<open>getElementById\<close>: the first element of
  the document with that id, or nothing.
\<close>

datatype target = Selector string | Element nat

definition by_id :: "dom \<Rightarrow> string \<Rightarrow> nat list" where
  "by_id d i = map key (take 1 (with_id d i))"

definition jq :: "dom \<Rightarrow> target \<Rightarrow> nat list" where
  "jq d t =
     (case t of
        Element k \<Rightarrow> [k]
      | Selector s \<Rightarrow>
          (case s of
             [] \<Rightarrow> []
           | c # i \<Rightarrow>
               if c = CHR ''#'' then by_id d i
               else map key (filter (\<lambda>e. tag e = s) (flatten (root d)))))"

text \<open>
  \<open>$el.find("#" + id)\<close>: the descendants with that id of the matched elements, for an id
  of letters, digits, underscores and hyphens. The plugin reads only whether the result
  is empty.
\<close>

definition jq_find :: "dom \<Rightarrow> nat list \<Rightarrow> string \<Rightarrow> elem list" where
  "jq_find d el i =
     concat (map (\<lambda>k. case node d k of
                         None \<Rightarrow> []
                       | Some e \<Rightarrow> filter (has_id i) (descendants e)) el)"

fun add_child :: "nat \<Rightarrow> elem \<Rightarrow> elem \<Rightarrow> elem" where
  "add_child p c (Elem k t i a s ks) =
     Elem k t i a s (map (add_child p c) ks @ (if k = p then [c] else []))"

fun add_after :: "nat \<Rightarrow> elem \<Rightarrow> elem \<Rightarrow> elem" where
  "add_after p c (Elem k t i a s ks) =
     Elem k t i a s
       (concat (map (\<lambda>x. if key x = p then [add_after p c x, c] else [add_after p c x]) ks))"

fun update_node :: "nat \<Rightarrow> (elem \<Rightarrow> elem) \<Rightarrow> elem \<Rightarrow> elem" where
  "update_node p f (Elem k t i a s ks) =
     (let e = Elem k t i a s (map (update_node p f) ks) in if k = p then f e else e)"

fun remove_node :: "nat \<Rightarrow> elem \<Rightarrow> elem" where
  "remove_node p (Elem k t i a s ks) =
     Elem k t i a s (map (remove_node p) (filter (\<lambda>x. key x \<noteq> p) ks))"

text \<open>
  \<open>$el.append(html)\<close> and \<open>$el.after(html)\<close> build one new element for every matched
  element, as its last child or as its next sibling; \<open>mk\<close> builds the element from its
  fresh key.
\<close>

definition jq_append :: "dom \<Rightarrow> nat list \<Rightarrow> (nat \<Rightarrow> elem) \<Rightarrow> dom" where
  "jq_append d el mk =
     foldl (\<lambda>d k. \<lparr>root = add_child k (mk (next_key d)) (root d), next_key = Suc (next_key d)\<rparr>)
       d el"

definition jq_after :: "dom \<Rightarrow> nat list \<Rightarrow> (nat \<Rightarrow> elem) \<Rightarrow> dom" where
  "jq_after d el mk =
     foldl (\<lambda>d k. \<lparr>root = add_after k (mk (next_key d)) (root d), next_key = Suc (next_key d)\<rparr>)
       d el"

definition set_style :: "(string \<times> string) list \<Rightarrow> elem \<Rightarrow> elem" where
  "set_style props e =
     Elem (key e) (tag e) (ident e) (attrs e)
       (foldl (\<lambda>st (n, v). AList.update n v st) (style e) props) (kids e)"

definition set_attr :: "string \<Rightarrow> jsstring \<Rightarrow> elem \<Rightarrow> elem" where
  "set_attr n v e =
     Elem (key e) (tag e) (ident e) (AList.update n v (attrs e)) (style e) (kids e)"

definition jq_css :: "dom \<Rightarrow> nat list \<Rightarrow> (string \<times> string) list \<Rightarrow> dom" where
  "jq_css d el props = foldl (\<lambda>d k. d\<lparr>root := update_node k (set_style props) (root d)\<rparr>) d el"

definition jq_attr :: "dom \<Rightarrow> nat list \<Rightarrow> string \<Rightarrow> jsstring \<Rightarrow> dom" where
  "jq_attr d el n v = foldl (\<lambda>d k. d\<lparr>root := update_node k (set_attr n v) (root d)\<rparr>) d el"

definition jq_remove :: "dom \<Rightarrow> nat list \<Rightarrow> dom" where
  "jq_remove d el = foldl (\<lambda>d k. d\<lparr>root := remove_node k (root d)\<rparr>) d el"



definition id_of :: "dom \<Rightarrow> nat \<Rightarrow> string" where
  "id_of d k = (case node d k of None \<Rightarrow> [] | Some e \<Rightarrow> ident e)"

definition set_ident :: "string \<Rightarrow> elem \<Rightarrow> elem" where
  "set_ident i e = Elem (key e) (tag e) i (attrs e) (style e) (kids e)"

section \<open>Configuration and instance state\<close>

type_synonym effect_options = "(string \<times> string) list"

record effect =
  options :: "effect_options option"

text \<open>
  The settings after \<open>$.extend({}, defaults, options)\<close>. The two engines are supplied as
  \<open>{name, api}\<close> pairs; the \<open>api\<close> objects are external libraries and only the names are
  kept. \<open>canvasAPI\<close>, \<open>effectsAPI\<close> and \<open>effects\<close> have no default and are required of the
  caller. A handler that is \<open>None\<close> is anything that is not a function.
\<close>

record settings =
  scratchCanvasId :: string
  scratchImageId :: string
  stageId :: string
  stageWidth :: jsval
  stageHeight :: jsval
  scratchCanvasWidth :: jsval
  scratchCanvasHeight :: jsval
  scratchImageWidth :: jsval
  scratchImageHeight :: jsval
  effectTimeout :: nat
  canvasAPI :: string
  effectsAPI :: string
  effects :: "(string \<times> effect) list"
  onLoad :: "nat option"
  onLoadError :: "nat option"
  onEffectError :: "nat option"

record caller_options =
  opt_scratchCanvasId :: "string option"
  opt_scratchImageId :: "string option"
  opt_stageId :: "string option"
  opt_stageWidth :: jsval
  opt_stageHeight :: jsval
  opt_scratchCanvasWidth :: jsval
  opt_scratchCanvasHeight :: jsval
  opt_scratchImageWidth :: jsval
  opt_scratchImageHeight :: jsval
  opt_effectTimeout :: "nat option"
  opt_canvasAPI :: string
  opt_effectsAPI :: string
  opt_effects :: "(string \<times> effect) list"
  opt_onLoad :: "nat option"
  opt_onLoadError :: "nat option"
  opt_onEffectError :: "nat option"

text \<open>\<open>$.extend\<close> copies every property of the options that is not \<open>undefined\<close>.\<close>

definition or_default :: "'a \<Rightarrow> 'a option \<Rightarrow> 'a" where
  "or_default dflt v = (case v of None \<Rightarrow> dflt | Some x \<Rightarrow> x)"

definition or_default_val :: "jsval \<Rightarrow> jsval \<Rightarrow> jsval" where
  "or_default_val dflt v = (if v = JUndefined then dflt else v)"

definition extend_defaults :: "caller_options \<Rightarrow> settings" where
  "extend_defaults opts =
     \<lparr> scratchCanvasId = or_default ''scratchCanvas'' (opt_scratchCanvasId opts),
       scratchImageId = or_default ''img'' (opt_scratchImageId opts),
       stageId = or_default ''stage'' (opt_stageId opts),
       stageWidth = or_default_val (JNum 0) (opt_stageWidth opts),
       stageHeight = or_default_val (JNum 0) (opt_stageHeight opts),
       scratchCanvasWidth = or_default_val (JNum 0) (opt_scratchCanvasWidth opts),
       scratchCanvasHeight = or_default_val (JNum 0) (opt_scratchCanvasHeight opts),
       scratchImageWidth = or_default_val (JNum 0) (opt_scratchImageWidth opts),
       scratchImageHeight = or_default_val (JNum 0) (opt_scratchImageHeight opts),
       effectTimeout = or_default 30000 (opt_effectTimeout opts),
       canvasAPI = opt_canvasAPI opts,
       effectsAPI = opt_effectsAPI opts,
       effects = opt_effects opts,
       onLoad = opt_onLoad opts,
       onLoadError = opt_onLoadError opts,
       onEffectError = opt_onEffectError opts \<rparr>"

text \<open>
  A handler bound on the host element: a function of the caller, or the closure of
  \<open>_checkImageLoaded\<close> that triggers \<open>image:loaded\<close>.
\<close>

datatype handler = User nat | TriggerLoaded

record plugin =
  element :: nat
  settings :: settings
  canvasLib :: string
  effectsLib :: string
  plugin_effects :: "(string \<times> effect) list"
  scratchImageEl :: "nat list"
  stageEl :: "nat list"
  scratchCanvasEl :: "nat list"
  stage :: nat
  stageContext :: nat
  scratchCanvas :: nat
  scratchContext :: nat
  bindings :: "(string \<times> handler) list"

text \<open>What the instance does that its environment can observe, in order.\<close>

datatype target_arg = TUndefined | TNull | TNative nat | TJQuery "nat list"

datatype action =
    Trigger string  \<comment> \<open>\<open>$element.trigger(name)\<close>\<close>
  | Handler nat  \<comment> \<open>a bound function of the caller runs\<close>
  | SetTimeout nat
  | ClearTimeout
  | Process target_arg string effect_options  \<comment> \<open>\<open>effectsAPI.process(target, name, options, ...)\<close>\<close>
  | Callback nat nat  \<comment> \<open>\<open>callback(resultCanvas)\<close>: the function and the result\<close>

definition notifications :: "action list \<Rightarrow> string list" where
  "notifications acts = concat (map (\<lambda>a. case a of Trigger n \<Rightarrow> [n] | _ \<Rightarrow> []) acts)"

definition callbacks :: "action list \<Rightarrow> (nat \<times> nat) list" where
  "callbacks acts = concat (map (\<lambda>a. case a of Callback f r \<Rightarrow> [(f, r)] | _ \<Rightarrow> []) acts)"

definition user_handlers :: "plugin \<Rightarrow> string \<Rightarrow> nat list" where
  "user_handlers self n =
     concat (map (\<lambda>(m, h). case h of User f \<Rightarrow> if m = n then [f] else [] | TriggerLoaded \<Rightarrow> [])
       (bindings self))"

text \<open>
  \<open>self.$element.trigger(name)\<close> raises the notification and runs the handlers bound to it,
  which are functions of the caller: the plugin triggers only its three \<open>image:\<close> events
  and binds its own closure only to \<open>load\<close>.
\<close>

definition trigger :: "plugin \<Rightarrow> string \<Rightarrow> action list" where
  "trigger self n = Trigger n # map Handler (user_handlers self n)"


section \<open>Showing and hiding elements\<close>

definition moveOffscreen :: "dom \<Rightarrow> nat list \<Rightarrow> dom" where
  "moveOffscreen d el =
     jq_css d el [(''position'', ''absolute''), (''top'', ''-9999em''), (''left'', ''-9999em'')]"

definition moveOnscreen :: "dom \<Rightarrow> nat list \<Rightarrow> dom" where
  "moveOnscreen d el =
     jq_css d el [(''position'', ''static''), (''top'', ''inherit''), (''left'', ''inherit'')]"

definition swapOnscreen :: "dom \<Rightarrow> nat list \<Rightarrow> nat list \<Rightarrow> dom" where
  "swapOnscreen d offEl onEl = moveOnscreen (moveOffscreen d offEl) onEl"

section \<open>Element Provisioner\<close>

text \<open>
  \<open>_setWidth\<close>, \<open>_setHeight\<close> and \<open>_setDimensions\<close>. \<open>el.attr(name, w)\<close> stores the string
  of the value itself, not the integer that \<open>parseInt\<close> read.
\<close>

definition setWidth :: "dom \<Rightarrow> nat list \<Rightarrow> jsval \<Rightarrow> dom" where
  "setWidth d el w = (if isNaN (parseInt10 w) then d else jq_attr d el ''width'' (ToString w))"

definition setHeight :: "dom \<Rightarrow> nat list \<Rightarrow> jsval \<Rightarrow> dom" where
  "setHeight d el h = (if isNaN (parseInt10 h) then d else jq_attr d el ''height'' (ToString h))"

record dims =
  width :: jsval
  height :: jsval

definition setDimensions :: "dom \<Rightarrow> nat list option \<Rightarrow> dims option \<Rightarrow> dom" where
  "setDimensions d el ds =
     (case el of
        None \<Rightarrow> d
      | Some e \<Rightarrow>
          (case ds of
             None \<Rightarrow> d
           | Some x \<Rightarrow> setHeight (setWidth d e (width x)) e (height x)))"

text \<open>
  \<open>_appendCanvas\<close> and \<open>_appendImage\<close>. The assignment to \<open>crossOrigin\<close> sets a property of the
  temporary jQuery object and leaves the document as it is.
\<close>

definition appendCanvas :: "dom \<Rightarrow> target \<Rightarrow> string \<Rightarrow> dom" where
  "appendCanvas d target i =
     (let d1 = (if length (jq_find d (jq d target) i) = 0
                then jq_append d (jq d target) (\<lambda>k. Elem k ''canvas'' i [] [] [])
                else d)
      in moveOffscreen d1 (jq d1 (Selector (CHR ''#'' # i))))"

definition appendImage :: "dom \<Rightarrow> target \<Rightarrow> string \<Rightarrow> dom" where
  "appendImage d target i =
     (let d1 = (if length (jq_find d (jq d target) i) = 0
                then jq_after d (jq d target) (\<lambda>k. Elem k ''img'' i [] [] [])
                else d)
      in moveOffscreen d1 (jq d1 (Selector (CHR ''#'' # i))))"

section \<open>Load Detector\<close>

text \<open>What the browser reports of the host element when the deferred check runs.\<close>

record image =
  complete :: bool
  naturalWidth :: "nat option"

definition checkImageNotFound :: "image \<Rightarrow> bool" where
  "checkImageNotFound imgEl \<longleftrightarrow>
     complete imgEl \<and> naturalWidth imgEl \<noteq> None \<and> naturalWidth imgEl = Some 0"

definition checkImageLoaded :: "plugin \<Rightarrow> image \<Rightarrow> plugin \<times> action list" where
  "checkImageLoaded self img =
     (if checkImageNotFound img then (self, trigger self ''image:loadError'')
      else if complete img then (self, trigger self ''image:loaded'')
      else (self\<lparr>bindings := bindings self @ [(''load'', TriggerLoaded)]\<rparr>, []))"

definition addHandler :: "plugin \<Rightarrow> string \<Rightarrow> nat option \<Rightarrow> plugin" where
  "addHandler self eventName h =
     (case h of
        Some f \<Rightarrow> self\<lparr>bindings := bindings self @ [(eventName, User f)]\<rparr>
      | None \<Rightarrow> self)"

text \<open>
  The events of the browser on the host element, once the check has run. Each runs the
  handlers bound to its name, in the order they were bound.
\<close>

datatype browser_event = Load | Error

definition event_name :: "browser_event \<Rightarrow> string" where
  "event_name ev = (case ev of Load \<Rightarrow> ''load'' | Error \<Rightarrow> ''error'')"

definition run_handler :: "plugin \<Rightarrow> handler \<Rightarrow> action list" where
  "run_handler self h =
     (case h of User f \<Rightarrow> [Handler f] | TriggerLoaded \<Rightarrow> trigger self ''image:loaded'')"

definition dispatch :: "plugin \<Rightarrow> browser_event \<Rightarrow> action list" where
  "dispatch self ev =
     concat (map (\<lambda>(n, h). if n = event_name ev then run_handler self h else []) (bindings self))"

definition browser_events :: "plugin \<Rightarrow> browser_event list \<Rightarrow> action list" where
  "browser_events self evs = concat (map (dispatch self) evs)"

definition load_detector :: "plugin \<Rightarrow> image \<Rightarrow> browser_event list \<Rightarrow> action list" where
  "load_detector self img evs =
     (case checkImageLoaded self img of (self', acts) \<Rightarrow> acts @ browser_events self' evs)"


section \<open>Plugin Facade\<close>

text \<open>
  \<open>getStage\<close> wraps the first matched element in a stage of the canvas library; both
  branches of its \<open>switch\<close> are the same statement. The stage keeps the element as its
  \<open>canvas\<close>, and \<open>stage.canvas.getContext("2d")\<close> is a \<open>TypeError\<close> when there is no such
  element or when it is not a canvas.
\<close>

definition getStage :: "string \<Rightarrow> nat list \<Rightarrow> nat option" where
  "getStage lib el = (case el of [] \<Rightarrow> None | k # _ \<Rightarrow> Some k)"

definition getContext :: "dom \<Rightarrow> nat option \<Rightarrow> js_error + nat" where
  "getContext d c =
     (case c of
        None \<Rightarrow> Inl TypeError
      | Some k \<Rightarrow>
          (case node d k of
             None \<Rightarrow> Inl TypeError
           | Some e \<Rightarrow> if tag e = ''canvas'' then Inr k else Inl TypeError))"

text \<open>
  \<open>init\<close> runs from the constructor, once the host element has an id. It ends by deferring
  \<open>_checkImageLoaded\<close> with \<open>setTimeout\<close>: the task is returned with the instance and the
  document.
\<close>

datatype task = CheckImageLoaded

definition init :: "dom \<Rightarrow> nat \<Rightarrow> settings \<Rightarrow> js_error + (plugin \<times> dom \<times> task list)" where
  "init d el s =
     (let scratchImageId' = scratchImageId s @ ''_'' @ id_of d el;
          d1 = appendCanvas d (Selector ''body'') (stageId s);
          d2 = appendCanvas d1 (Selector ''body'') (scratchCanvasId s);
          d3 = appendImage d2 (Element el) scratchImageId';
          scratchImageEl' = jq d3 (Selector (CHR ''#'' # scratchImageId'));
          stageEl' = jq d3 (Selector (CHR ''#'' # stageId s));
          scratchCanvasEl' = jq d3 (Selector (CHR ''#'' # scratchCanvasId s));
          d4 = setDimensions d3 (Some stageEl')
                 (Some \<lparr>width = stageWidth s, height = stageHeight s\<rparr>);
          d5 = setDimensions d4 (Some scratchCanvasEl')
                 (Some \<lparr>width = scratchCanvasWidth s, height = scratchCanvasHeight s\<rparr>)
      in case getStage (canvasAPI s) stageEl' of
           None \<Rightarrow> Inl TypeError
         | Some stage' \<Rightarrow>
         (case getContext d5 (Some stage') of
           Inl e \<Rightarrow> Inl e
         | Inr stageContext' \<Rightarrow>
         (case getStage (canvasAPI s) scratchCanvasEl' of
           None \<Rightarrow> Inl TypeError
         | Some scratchCanvas' \<Rightarrow>
         (case getContext d5 (Some scratchCanvas') of
           Inl e \<Rightarrow> Inl e
         | Inr scratchContext' \<Rightarrow>
             Inr (addHandler
                    (addHandler
                       (addHandler
                          \<lparr> element = el, settings = s,
                            canvasLib = canvasAPI s, effectsLib = effectsAPI s,
                            plugin_effects = effects s,
                            scratchImageEl = scratchImageEl', stageEl = stageEl',
                            scratchCanvasEl = scratchCanvasEl',
                            stage = stage', stageContext = stageContext',
                            scratchCanvas = scratchCanvas', scratchContext = scratchContext',
                            bindings = [] \<rparr>
                          ''image:loaded'' (onLoad s))
                       ''image:loadError'' (onLoadError s))
                    ''image:effectError'' (onEffectError s),
                  d5, [CheckImageLoaded])))))"

text \<open>
  The constructor gives the host element an id made of the time when it has none, merges
  the options over the defaults and runs \<open>init\<close>. \<open>now\<close> is \<open>new Date().getTime()\<close>.
\<close>

definition Plugin ::
    "dom \<Rightarrow> nat \<Rightarrow> caller_options \<Rightarrow> nat \<Rightarrow> js_error + (plugin \<times> dom \<times> task list)" where
  "Plugin d el opts now =
     (let d0 = (if id_of d el = []
                then d\<lparr>root := update_node el (set_ident (CHR ''_'' # map char_of (dec now))) (root d)\<rparr>
                else d)
      in init d0 el (extend_defaults opts))"

definition destroy :: "plugin \<Rightarrow> dom \<Rightarrow> dom" where
  "destroy self d =
     (let d1 = jq_remove d (stageEl self);
          d2 = jq_remove d1 (scratchCanvasEl self)
      in jq_remove d2 (jq d2 (Selector (CHR ''#'' # id_of d2 (element self)))))"


section \<open>Effect Invoker\<close>

text \<open>
  One call of \<open>applyEffect\<close> that passes its guard owns three variables of the closure:
  the flag \<open>timedOut\<close>, the timer and the caller's callback (\<open>None\<close> when what was passed
  is not a function). A timer is pending from \<open>setTimeout\<close> until it fires or is cleared.
\<close>

datatype timer = Pending | Cleared | Fired

record call =
  timedOut :: bool
  timer :: timer
  callback :: "nat option"

text \<open>
  \<open>target.length\<close> is a \<open>TypeError\<close> for \<open>null\<close>, which \<open>typeof\<close> does not report as
  \<open>"undefined"\<close>; a non-empty jQuery object is replaced by its first element. Both
  branches of the \<open>switch\<close> on the effects library are the same statements.
\<close>

definition applyEffect ::
    "plugin \<Rightarrow> string \<Rightarrow> target_arg \<Rightarrow> nat option \<Rightarrow> js_error + (call option \<times> action list)" where
  "applyEffect self effectName target cb =
     (case map_of (plugin_effects self) effectName of
        None \<Rightarrow> Inr (None, [])
      | Some effect \<Rightarrow>
          (case target of
             TUndefined \<Rightarrow> Inr (None, [])
           | TNull \<Rightarrow> Inl TypeError
           | _ \<Rightarrow>
               (let target' = (case target of TJQuery (k # _) \<Rightarrow> TNative k | _ \<Rightarrow> target);
                    opts = (case options effect of None \<Rightarrow> [] | Some x \<Rightarrow> x)
                in Inr (Some \<lparr>timedOut = False, timer = Pending, callback = cb\<rparr>,
                        [SetTimeout (effectTimeout (settings self)),
                         Process target' effectName opts]))))"

definition clearTimeout :: "timer \<Rightarrow> timer" where
  "clearTimeout t = (if t = Pending then Cleared else t)"

text \<open>
  The two functions of the closure. The event loop runs the first only while the timer is
  pending, so the firing of a timer that is cleared or has fired is no event at all; the
  effects engine runs the second when it completes.
\<close>

definition timer_fires :: "plugin \<Rightarrow> call \<Rightarrow> call \<times> action list" where
  "timer_fires self c =
     (if timer c = Pending
      then (c\<lparr>timedOut := True, timer := Fired\<rparr>, trigger self ''image:effectError'')
      else (c, []))"

definition engine_callback :: "call \<Rightarrow> nat \<Rightarrow> call \<times> action list" where
  "engine_callback c resultCanvas =
     (if \<not> timedOut c \<and> callback c \<noteq> None
      then (c\<lparr>timer := clearTimeout (timer c)\<rparr>,
            ClearTimeout # (case callback c of None \<Rightarrow> [] | Some f \<Rightarrow> [Callback f resultCanvas]))
      else (c, []))"

datatype call_event = TimerFires | EngineCallback nat

definition call_step :: "plugin \<Rightarrow> call \<Rightarrow> call_event \<Rightarrow> call \<times> action list" where
  "call_step self c ev =
     (case ev of TimerFires \<Rightarrow> timer_fires self c | EngineCallback r \<Rightarrow> engine_callback c r)"

fun run_call :: "plugin \<Rightarrow> call \<Rightarrow> call_event list \<Rightarrow> call \<times> action list" where
  "run_call self c [] = (c, [])"
| "run_call self c (ev # evs) =
     (case call_step self c ev of
        (c1, a1) \<Rightarrow> (case run_call self c1 evs of (c2, a2) \<Rightarrow> (c2, a1 @ a2)))"

text \<open>
  A call and what follows it. When the call is a no-op there is no timer and no request
  to the engine, so no later event belongs to it.
\<close>

definition effect_session ::
    "plugin \<Rightarrow> string \<Rightarrow> target_arg \<Rightarrow> nat option \<Rightarrow> call_event list
       \<Rightarrow> js_error + (call option \<times> action list)" where
  "effect_session self effectName target cb evs =
     (case applyEffect self effectName target cb of
        Inl e \<Rightarrow> Inl e
      | Inr (None, a) \<Rightarrow> Inr (None, a)
      | Inr (Some c, a) \<Rightarrow> (case run_call self c evs of (c', a') \<Rightarrow> Inr (Some c', a @ a')))"

definition engine_completions :: "call_event list \<Rightarrow> nat" where
  "engine_completions evs = length (filter (\<lambda>ev. ev \<noteq> TimerFires) evs)"

section \<open>Grid drawing\<close>

record canvas =
  canvas_width :: int
  canvas_height :: int

datatype ctx_cmd =
    LineWidth int
  | StrokeStyle string
  | MoveTo int int
  | LineTo int int
  | Stroke

text \<open>
  The two loops of \<open>buildGrid\<close>. Neither ends when the grid size is not positive and the
  canvas is not empty, so each is a partial function: \<open>None\<close> is a loop that runs forever.
\<close>

partial_function (option) vertical_lines ::
    "canvas \<Rightarrow> int \<Rightarrow> int \<Rightarrow> ctx_cmd list \<Rightarrow> ctx_cmd list option" where
  "vertical_lines canvas gridSize x ctx =
     (if x < canvas_width canvas
      then vertical_lines canvas gridSize (x + gridSize)
             (ctx @ [MoveTo x 0, LineTo x (canvas_height canvas)])
      else Some ctx)"

partial_function (option) horizontal_lines ::
    "canvas \<Rightarrow> int \<Rightarrow> int \<Rightarrow> ctx_cmd list \<Rightarrow> ctx_cmd list option" where
  "horizontal_lines canvas gridSize y ctx =
     (if y < canvas_height canvas
      then horizontal_lines canvas gridSize (y + gridSize)
             (ctx @ [MoveTo 0 y, LineTo (canvas_width canvas - 1) y])
      else Some ctx)"

declare vertical_lines.simps [code]

declare horizontal_lines.simps [code]

definition buildGrid :: "canvas \<Rightarrow> int \<Rightarrow> string \<Rightarrow> int \<Rightarrow> ctx_cmd list option" where
  "buildGrid canvas gridSize color lineWidth =
     (case vertical_lines canvas gridSize 0 [LineWidth lineWidth, StrokeStyle color] of
        None \<Rightarrow> None
      | Some ctx1 \<Rightarrow>
          (case horizontal_lines canvas gridSize 0 ctx1 of
             None \<Rightarrow> None
           | Some ctx2 \<Rightarrow> Some (ctx2 @ [Stroke])))"

text \<open>
  In a trace, no callback of the caller comes after the notification of a timeout.
\<close>

fun no_callback_after_timeout :: "action list \<Rightarrow> bool" where
  "no_callback_after_timeout [] = True"
| "no_callback_after_timeout (a # as) =
     (if a = Trigger ''image:effectError'' then callbacks as = [] else no_callback_after_timeout as)"


section \<open>A concrete instance\<close>

text \<open>
  The instance that \<open>init\<close> builds on a page whose body holds one image, \<open>photo\<close>, with the
  default ids and timeout, a stage of width \<open>-5\<close> and height \<open>"abc"\<close>, a scratch canvas
  of width \<open>"12px"\<close>, one effect and three handlers.
\<close>

definition demo_plugin :: plugin where
  "demo_plugin =
     \<lparr> element = 3,
       settings = extend_defaults
         \<lparr> opt_scratchCanvasId = None, opt_scratchImageId = None, opt_stageId = None,
           opt_stageWidth = JNum (- 5), opt_stageHeight = JStr (str ''abc''),
           opt_scratchCanvasWidth = JStr (str ''12px''), opt_scratchCanvasHeight = JUndefined,
           opt_scratchImageWidth = JUndefined, opt_scratchImageHeight = JUndefined,
           opt_effectTimeout = None, opt_canvasAPI = ''easeljs'', opt_effectsAPI = ''pixastic'',
           opt_effects = [(''blur'', \<lparr>options = Some [(''amount'', ''0.5'')]\<rparr>)],
           opt_onLoad = Some 1, opt_onLoadError = Some 2, opt_onEffectError = Some 3 \<rparr>,
       canvasLib = ''easeljs'', effectsLib = ''pixastic'',
       plugin_effects = [(''blur'', \<lparr>options = Some [(''amount'', ''0.5'')]\<rparr>)],
       scratchImageEl = [6], stageEl = [4], scratchCanvasEl = [5],
       stage = 4, stageContext = 4, scratchCanvas = 5, scratchContext = 5,
       bindings = [(''image:loaded'', User 1), (''image:loadError'', User 2),
                   (''image:effectError'', User 3)] \<rparr>"

section \<open>Configured dimensions\<close>


text \<open>
  A dimension as the guard of \<open>_setWidth\<close> and \<open>_setHeight\<close> takes it: any finite number,
  and any string, array or object whose string starts, after white space and at most one
  sign, with a decimal digit.
\<close>

definition starts_with_integer :: "jsstring \<Rightarrow> bool" where
  "starts_with_integer s =
     (case dropWhile StrWhiteSpaceChar s of
        [] \<Rightarrow> False
      | c # r \<Rightarrow>
          if c = 45 \<or> c = 43 then (case r of [] \<Rightarrow> False | c' # _ \<Rightarrow> is_digit c')
          else is_digit c)"

fun accepted_dimension :: "jsval \<Rightarrow> bool" where
  "accepted_dimension (JNum n) = True"
| "accepted_dimension (JDec m e) = True"
| "accepted_dimension (JStr s) = starts_with_integer s"
| "accepted_dimension (JObject s) = starts_with_integer s"
| "accepted_dimension v = False"

section \<open>The handlers of an instance\<close>

text \<open>What \<open>init\<close> binds on the host element: the handlers of the settings that are functions.\<close>

definition plugin_handlers :: "settings \<Rightarrow> (string \<times> handler) list" where
  "plugin_handlers s =
     (case onLoad s of None \<Rightarrow> [] | Some f \<Rightarrow> [(''image:loaded'', User f)]) @
     (case onLoadError s of None \<Rightarrow> [] | Some f \<Rightarrow> [(''image:loadError'', User f)]) @
     (case onEffectError s of None \<Rightarrow> [] | Some f \<Rightarrow> [(''image:effectError'', User f)])"

text \<open>
  The page, the documents after each step of \<open>init\<close>, and the document when \<open>init\<close> returns.
\<close>

definition demo_page :: dom where
  "demo_page =
     \<lparr> root = Elem 0 ''#document'' [] [] []
         [Elem 1 ''html'' [] [] []
            [Elem 2 ''body'' [] [] [] [Elem 3 ''img'' ''photo'' [] [] []]]],
       next_key = 4 \<rparr>"

definition offscreen :: "(string \<times> string) list" where
  "offscreen = [(''position'', ''absolute''), (''top'', ''-9999em''), (''left'', ''-9999em'')]"

definition demo_ready :: dom where
  "demo_ready =
     \<lparr> root = Elem 0 ''#document'' [] [] []
         [Elem 1 ''html'' [] [] []
            [Elem 2 ''body'' [] [] []
               [Elem 3 ''img'' ''photo'' [] [] [],
                Elem 6 ''img'' ''img_photo'' [] offscreen [],
                Elem 4 ''canvas'' ''stage'' [(''width'', str ''-5'')] offscreen [],
                Elem 5 ''canvas'' ''scratchCanvas'' [(''width'', str ''12px''), (''height'', str ''0'')]
                  offscreen []]]],
       next_key = 7 \<rparr>"


definition page1 :: dom where
  "page1 =
     \<lparr> root = Elem 0 ''#document'' [] [] []
         [Elem 1 ''html'' [] [] []
            [Elem 2 ''body'' [] [] []
               [Elem 3 ''img'' ''photo'' [] [] [],
                Elem 4 ''canvas'' ''stage'' [] offscreen []]]],
       next_key = 5 \<rparr>"

definition page2 :: dom where
  "page2 =
     \<lparr> root = Elem 0 ''#document'' [] [] []
         [Elem 1 ''html'' [] [] []
            [Elem 2 ''body'' [] [] []
               [Elem 3 ''img'' ''photo'' [] [] [],
                Elem 4 ''canvas'' ''stage'' [] offscreen [],
                Elem 5 ''canvas'' ''scratchCanvas'' [] offscreen []]]],
       next_key = 6 \<rparr>"

definition page3 :: dom where
  "page3 =
     \<lparr> root = Elem 0 ''#document'' [] [] []
         [Elem 1 ''html'' [] [] []
            [Elem 2 ''body'' [] [] []
               [Elem 3 ''img'' ''photo'' [] [] [],
                Elem 6 ''img'' ''img_photo'' [] offscreen [],
                Elem 4 ''canvas'' ''stage'' [] offscreen [],
                Elem 5 ''canvas'' ''scratchCanvas'' [] offscreen []]]],
       next_key = 7 \<rparr>"

definition page4 :: dom where
  "page4 =
     \<lparr> root = Elem 0 ''#document'' [] [] []
         [Elem 1 ''html'' [] [] []
            [Elem 2 ''body'' [] [] []
               [Elem 3 ''img'' ''photo'' [] [] [],
                Elem 6 ''img'' ''img_photo'' [] offscreen [],
                Elem 4 ''canvas'' ''stage'' [(''width'', str ''-5'')] offscreen [],
                Elem 5 ''canvas'' ''scratchCanvas'' [] offscreen []]]],
       next_key = 7 \<rparr>"

section \<open>Views of the document\<close>



text \<open>
  The document after a second call of \<open>_appendImage\<close> for the scratch image, and the
  document that \<open>destroy\<close> leaves.
\<close>

definition page3_again :: dom where
  "page3_again =
     \<lparr> root = Elem 0 ''#document'' [] [] []
         [Elem 1 ''html'' [] [] []
            [Elem 2 ''body'' [] [] []
               [Elem 3 ''img'' ''photo'' [] [] [],
                Elem 7 ''img'' ''img_photo'' [] offscreen [],
                Elem 6 ''img'' ''img_photo'' [] offscreen [],
                Elem 4 ''canvas'' ''stage'' [] offscreen [],
                Elem 5 ''canvas'' ''scratchCanvas'' [] offscreen []]]],
       next_key = 8 \<rparr>"

definition demo_destroyed :: dom where
  "demo_destroyed =
     \<lparr> root = Elem 0 ''#document'' [] [] []
         [Elem 1 ''html'' [] [] []
            [Elem 2 ''body'' [] [] [] [Elem 6 ''img'' ''img_photo'' [] offscreen []]]],
       next_key = 7 \<rparr>"

section \<open>Notions for provisioning\<close>

text \<open>
  An element has a descendant with a given id; the keys of a document are below its next
  key; an element with a given key and tag is in the document.
\<close>

definition has_desc :: "dom \<Rightarrow> nat \<Rightarrow> string \<Rightarrow> bool" where
  "has_desc d k i \<longleftrightarrow>
     (case node d k of None \<Rightarrow> False | Some e \<Rightarrow> \<exists>x \<in> set (descendants e). has_id i x)"

definition bounded :: "dom \<Rightarrow> bool" where
  "bounded d \<longleftrightarrow> (\<forall>e \<in> set (flatten (root d)). key e < next_key d)"

definition tagged :: "dom \<Rightarrow> nat \<Rightarrow> string \<Rightarrow> bool" where
  "tagged d k s \<longleftrightarrow> (\<exists>x \<in> set (flatten (root d)). key x = k \<and> tag x = s)"

definition new_canvas :: "string \<Rightarrow> nat \<Rightarrow> elem" where
  "new_canvas i k = Elem k ''canvas'' i [] [] []"

definition append_one :: "dom \<Rightarrow> nat \<Rightarrow> (nat \<Rightarrow> elem) \<Rightarrow> dom" where
  "append_one d k mk = \<lparr>root = add_child k (mk (next_key d)) (root d), next_key = Suc (next_key d)\<rparr>"

text \<open>A target that is an element or a tag selector.\<close>

definition plain_target :: "target \<Rightarrow> bool" where
  "plain_target t \<longleftrightarrow> (case t of Element k \<Rightarrow> True | Selector s \<Rightarrow> simple_tag s)"

section \<open>Traces of actions\<close>

lemma notifications_simps:
  "notifications [] = []"
  "notifications (a # as) = (case a of Trigger n \<Rightarrow> [n] | _ \<Rightarrow> []) @ notifications as"
  "notifications (xs @ ys) = notifications xs @ notifications ys"
  by (simp_all add: notifications_def)

lemma callbacks_simps:
  "callbacks [] = []"
  "callbacks (a # as) = (case a of Callback f r \<Rightarrow> [(f, r)] | _ \<Rightarrow> []) @ callbacks as"
  "callbacks (xs @ ys) = callbacks xs @ callbacks ys"
  by (simp_all add: callbacks_def)

lemma notifications_handlers: "notifications (map Handler fs) = []"
  by (induction fs) (simp_all add: notifications_simps)

lemma callbacks_handlers: "callbacks (map Handler fs) = []"
  by (induction fs) (simp_all add: callbacks_simps)

lemma notifications_trigger: "notifications (trigger self n) = [n]"
  by (simp add: trigger_def notifications_simps notifications_handlers)

lemma callbacks_trigger: "callbacks (trigger self n) = []"
  by (simp add: trigger_def callbacks_simps callbacks_handlers)

lemma ClearTimeout_trigger: "ClearTimeout \<notin> set (trigger self n)"
  by (auto simp: trigger_def)

lemma run_call_Cons:
  "fst (run_call self c (ev # evs)) = fst (run_call self (fst (call_step self c ev)) evs)"
  "snd (run_call self c (ev # evs)) =
     snd (call_step self c ev) @ snd (run_call self (fst (call_step self c ev)) evs)"
  by (simp_all split: prod.splits)

lemma timer_step:
  "call_step self c TimerFires =
     (if timer c = Pending
      then (c\<lparr>timedOut := True, timer := Fired\<rparr>, trigger self ''image:effectError'')
      else (c, []))"
  by (simp add: call_step_def timer_fires_def)

lemma engine_step:
  "call_step self c (EngineCallback r) =
     (if \<not> timedOut c \<and> callback c \<noteq> None
      then (c\<lparr>timer := clearTimeout (timer c)\<rparr>,
            ClearTimeout # (case callback c of None \<Rightarrow> [] | Some f \<Rightarrow> [Callback f r]))
      else (c, []))"
  by (simp add: call_step_def engine_callback_def)

lemma run_call_spent:
  "timedOut c \<Longrightarrow> timer c \<noteq> Pending \<Longrightarrow> run_call self c evs = (c, [])"
proof (induction evs)
  case Nil
  show ?case by simp
next
  case (Cons ev evs)
  then show ?case by (cases ev) (simp_all add: timer_step engine_step)
qed

lemma run_call_only_timer:
  "timer c \<noteq> Pending \<Longrightarrow> engine_completions evs = 0 \<Longrightarrow> run_call self c evs = (c, [])"
proof (induction evs)
  case Nil
  show ?case by simp
next
  case (Cons ev evs)
  then show ?case by (cases ev) (simp_all add: timer_step engine_completions_def)
qed

lemma run_call_callbacks_le:
  "length (callbacks (snd (run_call self c evs))) \<le> engine_completions evs"
proof (induction evs arbitrary: c)
  case Nil
  show ?case by (simp add: callbacks_simps)
next
  case (Cons ev evs)
  have step: "length (callbacks (snd (call_step self c ev))) \<le> engine_completions [ev]"
    by (cases ev)
      (simp_all add: timer_step engine_step engine_completions_def callbacks_simps
        callbacks_trigger split: option.splits)
  have "engine_completions (ev # evs) = engine_completions [ev] + engine_completions evs"
    by (simp add: engine_completions_def)
  with step Cons.IH [of "fst (call_step self c ev)"] show ?case
    by (simp add: run_call_Cons callbacks_simps del: run_call.simps)
qed

lemma ncat_append:
  "Trigger ''image:effectError'' \<notin> set xs \<Longrightarrow>
   no_callback_after_timeout (xs @ ys) = no_callback_after_timeout ys"
  by (induction xs) auto

lemma ncat_trigger:
  "callbacks ys = [] \<Longrightarrow> no_callback_after_timeout (trigger self ''image:effectError'' @ ys)"
  by (simp add: trigger_def callbacks_simps callbacks_handlers)

lemma run_call_ncat:
  "(timer c = Fired \<longrightarrow> timedOut c) \<Longrightarrow> no_callback_after_timeout (snd (run_call self c evs))"
proof (induction evs arbitrary: c)
  case Nil
  show ?case by simp
next
  case (Cons ev evs)
  show ?case
  proof (cases ev)
    case TimerFires
    show ?thesis
    proof (cases "timer c = Pending")
      case True
      have "run_call self (c\<lparr>timedOut := True, timer := Fired\<rparr>) evs
              = (c\<lparr>timedOut := True, timer := Fired\<rparr>, [])"
        by (rule run_call_spent) simp_all
      with True TimerFires ncat_trigger [of "[]" self] show ?thesis
        by (simp add: run_call_Cons timer_step callbacks_simps del: run_call.simps)
    next
      case False
      with TimerFires Cons.prems Cons.IH [of c] show ?thesis
        by (simp add: run_call_Cons timer_step del: run_call.simps)
    qed
  next
    case (EngineCallback r)
    show ?thesis
    proof (cases "\<not> timedOut c \<and> callback c \<noteq> None")
      case True
      then obtain f where f: "callback c = Some f" by auto
      have "no_callback_after_timeout (snd (run_call self (c\<lparr>timer := clearTimeout (timer c)\<rparr>) evs))"
        using Cons.prems True by (intro Cons.IH) (simp add: clearTimeout_def)
      with True f EngineCallback show ?thesis
        by (simp add: run_call_Cons engine_step del: run_call.simps)
    next
      case False
      with EngineCallback Cons.prems Cons.IH [of c] show ?thesis
        by (auto simp add: run_call_Cons engine_step simp del: run_call.simps)
    qed
  qed
qed



lemma applyEffect_starts:
  assumes "map_of (plugin_effects self) effectName = Some effect"
    and "target \<noteq> TUndefined" and "target \<noteq> TNull"
  shows "\<exists>a. applyEffect self effectName target cb
           = Inr (Some \<lparr>timedOut = False, timer = Pending, callback = cb\<rparr>, a)
         \<and> notifications a = [] \<and> callbacks a = [] \<and> ClearTimeout \<notin> set a
         \<and> Trigger ''image:effectError'' \<notin> set a"
  using assms
  by (cases target) (simp_all add: applyEffect_def notifications_simps callbacks_simps)

lemma effect_session_run:
  "applyEffect self effectName target cb = Inr (Some c, a) \<Longrightarrow>
   effect_session self effectName target cb evs
     = Inr (Some (fst (run_call self c evs)), a @ snd (run_call self c evs))"
  by (simp add: effect_session_def split: prod.splits)

lemma run_call_cleared:
  "timer c = Cleared \<Longrightarrow> \<not> timedOut c \<Longrightarrow>
   notifications (snd (run_call self c evs)) = [] \<and> timer (fst (run_call self c evs)) = Cleared
   \<and> \<not> timedOut (fst (run_call self c evs))"
proof (induction evs arbitrary: c)
  case Nil
  then show ?case by (simp add: notifications_simps)
next
  case (Cons ev evs)
  show ?case
  proof (cases ev)
    case TimerFires
    with Cons.prems Cons.IH [of c] show ?thesis
      by (simp add: run_call_Cons timer_step notifications_simps del: run_call.simps)
  next
    case (EngineCallback r)
    have "notifications (case callback c of None \<Rightarrow> [] | Some f \<Rightarrow> [Callback f r]) = []"
      by (simp add: notifications_simps split: option.splits)
    with EngineCallback Cons.prems Cons.IH [of c]
      Cons.IH [of "c\<lparr>timer := clearTimeout (timer c)\<rparr>"]
    show ?thesis
      by (simp add: run_call_Cons engine_step notifications_simps clearTimeout_def
          del: run_call.simps)
  qed
qed

lemma run_call_no_callback:
  "callback c = None \<Longrightarrow>
   callbacks (snd (run_call self c evs)) = [] \<and> ClearTimeout \<notin> set (snd (run_call self c evs))
   \<and> callback (fst (run_call self c evs)) = None"
proof (induction evs arbitrary: c)
  case Nil
  then show ?case by (simp add: callbacks_simps)
next
  case (Cons ev evs)
  show ?case
  proof (cases ev)
    case TimerFires
    with Cons.prems Cons.IH [of c] Cons.IH [of "c\<lparr>timedOut := True, timer := Fired\<rparr>"]
    show ?thesis
      by (simp add: run_call_Cons timer_step callbacks_simps callbacks_trigger
          ClearTimeout_trigger del: run_call.simps)
  next
    case (EngineCallback r)
    with Cons.prems Cons.IH [of c] show ?thesis
      by (simp add: run_call_Cons engine_step del: run_call.simps)
  qed
qed

lemma run_call_pending_no_callback:
  "callback c = None \<Longrightarrow> timer c = Pending \<Longrightarrow> \<not> timedOut c \<Longrightarrow>
   (if TimerFires \<in> set evs
    then notifications (snd (run_call self c evs)) = [''image:effectError'']
         \<and> timedOut (fst (run_call self c evs)) \<and> timer (fst (run_call self c evs)) = Fired
    else notifications (snd (run_call self c evs)) = []
         \<and> \<not> timedOut (fst (run_call self c evs)) \<and> timer (fst (run_call self c evs)) = Pending)"
proof (induction evs)
  case Nil
  then show ?case by (simp add: notifications_simps)
next
  case (Cons ev evs)
  show ?case
  proof (cases ev)
    case TimerFires
    have "run_call self (c\<lparr>timedOut := True, timer := Fired\<rparr>) evs
            = (c\<lparr>timedOut := True, timer := Fired\<rparr>, [])"
      by (rule run_call_spent) simp_all
    with TimerFires Cons.prems show ?thesis
      by (simp add: run_call_Cons timer_step notifications_simps notifications_trigger
          del: run_call.simps)
  next
    case (EngineCallback r)
    with Cons show ?thesis
      by (simp add: run_call_Cons engine_step notifications_simps del: run_call.simps)
  qed
qed

section \<open>The race of the Effect Invoker\<close>

lemma demo_blur:
  "map_of (plugin_effects demo_plugin) ''blur'' = Some \<lparr>options = Some [(''amount'', ''0.5'')]\<rparr>"
  by (simp add: demo_plugin_def)


text \<open>
  C5. When the effect name is not a key of the configured effects, or the target is
  \<open>undefined\<close>, \<open>applyEffect\<close> is a silent no-op: it raises no error, starts no timer, asks
  nothing of the engine, and whatever happens later, no notification is raised and the
  caller's callback is not invoked.
\<close>

theorem applyEffect_noop:
  assumes "map_of (plugin_effects self) effectName = None \<or> target = TUndefined"
  shows "effect_session self effectName target cb evs = Inr (None, [])"
  using assms
  by (auto simp add: effect_session_def applyEffect_def split: option.splits)

theorem applyEffect_noop_witness:
  "effect_session demo_plugin ''sepia'' (TNative 4) (Some 7) [EngineCallback 8, TimerFires]
     = Inr (None, [])
   \<and> effect_session demo_plugin ''blur'' TUndefined (Some 7) [TimerFires, EngineCallback 8]
     = Inr (None, [])"
  using applyEffect_noop [of demo_plugin "''sepia''" "TNative 4" "Some 7" "[EngineCallback 8, TimerFires]"]
    applyEffect_noop [of demo_plugin "''blur''" TUndefined "Some 7" "[TimerFires, EngineCallback 8]"]
  by (simp add: demo_plugin_def)



text \<open>
  C1, amended. For a call with a configured effect name and a target that is an element
  or a jQuery object: when the timer fires before the engine calls back, exactly one
  \<open>image:effectError\<close> notification is raised, every later callback of the engine is
  ignored and the caller's callback is never invoked. Whatever the order of the events,
  no caller's callback comes after the notification of the timeout, and the caller's
  callback is invoked at most once for each completion that the engine reports, hence
  at most once when the engine reports at most one completion for its request.
\<close>

theorem timeout_before_engine:
  assumes "map_of (plugin_effects self) effectName = Some effect"
    and "target \<noteq> TUndefined" and "target \<noteq> TNull"
  shows "(\<exists>c acts. effect_session self effectName target cb (TimerFires # late) = Inr (Some c, acts)
            \<and> timedOut c
            \<and> notifications acts = [''image:effectError'']
            \<and> callbacks acts = [])
       \<and> (\<exists>c acts. effect_session self effectName target cb evs = Inr (Some c, acts)
            \<and> no_callback_after_timeout acts
            \<and> length (callbacks acts) \<le> engine_completions evs
            \<and> (engine_completions evs \<le> 1 \<longrightarrow> length (callbacks acts) \<le> 1))"
proof -
  let ?c = "\<lparr>timedOut = False, timer = Pending, callback = cb\<rparr>"
  let ?t = "?c\<lparr>timedOut := True, timer := Fired\<rparr>"
  from applyEffect_starts [OF assms, of cb] obtain a where
    a: "applyEffect self effectName target cb = Inr (Some ?c, a)"
    and na: "notifications a = []" and ca: "callbacks a = []"
    and ta: "Trigger ''image:effectError'' \<notin> set a"
    by blast
  have spent: "run_call self ?t late = (?t, [])"
    by (rule run_call_spent) simp_all
  then have first: "run_call self ?c (TimerFires # late) = (?t, trigger self ''image:effectError'')"
    by (simp add: timer_step)
  have part1: "\<exists>c acts. effect_session self effectName target cb (TimerFires # late) = Inr (Some c, acts)
            \<and> timedOut c \<and> notifications acts = [''image:effectError''] \<and> callbacks acts = []"
    using na ca
    by (simp add: effect_session_run [OF a] first notifications_simps callbacks_simps
        notifications_trigger callbacks_trigger del: run_call.simps)
  have ncat: "no_callback_after_timeout (a @ snd (run_call self ?c evs))"
    using ta run_call_ncat [of ?c self evs] by (simp add: ncat_append)
  have le: "length (callbacks (a @ snd (run_call self ?c evs))) \<le> engine_completions evs"
    using ca run_call_callbacks_le [of self ?c evs] by (simp add: callbacks_simps)
  have part2: "\<exists>c acts. effect_session self effectName target cb evs = Inr (Some c, acts)
            \<and> no_callback_after_timeout acts
            \<and> length (callbacks acts) \<le> engine_completions evs
            \<and> (engine_completions evs \<le> 1 \<longrightarrow> length (callbacks acts) \<le> 1)"
    using ncat le by (simp add: effect_session_run [OF a])
  from part1 part2 show ?thesis by blast
qed

theorem timeout_before_engine_witness:
  "(\<exists>c acts. effect_session demo_plugin ''blur'' (TNative 4) (Some 7)
                 [TimerFires, EngineCallback 8] = Inr (Some c, acts)
            \<and> timedOut c
            \<and> notifications acts = [''image:effectError'']
            \<and> callbacks acts = [])
   \<and> (\<exists>c acts. effect_session demo_plugin ''blur'' (TNative 4) (Some 7)
                 [EngineCallback 8, TimerFires] = Inr (Some c, acts)
            \<and> no_callback_after_timeout acts
            \<and> length (callbacks acts) \<le> 1)"
  using timeout_before_engine [OF demo_blur, of "TNative 4" "Some 7" "[EngineCallback 8]"
      "[EngineCallback 8, TimerFires]"]
  by (simp add: engine_completions_def)


text \<open>
  The claim C1 as it is written fails when the engine reports two completions before the
  timeout: the closure has no guard that runs once, and the caller's callback is invoked
  twice.
\<close>

theorem timeout_before_engine_counterexample:
  "effect_session demo_plugin ''blur'' (TNative 4) (Some 7) [EngineCallback 8, EngineCallback 9]
     = Inr (Some \<lparr>timedOut = False, timer = Cleared, callback = Some 7\<rparr>,
            [SetTimeout 30000, Process (TNative 4) ''blur'' [(''amount'', ''0.5'')],
             ClearTimeout, Callback 7 8, ClearTimeout, Callback 7 9])"
  by (simp add: effect_session_def applyEffect_def demo_plugin_def extend_defaults_def
      or_default_def call_step_def engine_callback_def clearTimeout_def)

text \<open>
  C2, amended. For a call with a configured effect name, a target that is an element or
  a jQuery object and a callback that is a function: when the engine calls back before
  the timer fires, the timer is cleared, the caller's callback is invoked with the
  result of the engine, once when the engine reports one completion, and no
  \<open>image:effectError\<close> notification is ever raised for the call.
\<close>

theorem engine_before_timeout:
  assumes "map_of (plugin_effects self) effectName = Some effect"
    and "target \<noteq> TUndefined" and "target \<noteq> TNull"
  shows "\<exists>c acts more.
           effect_session self effectName target (Some f) (EngineCallback r # evs)
             = Inr (Some c, acts)
           \<and> callbacks acts = (f, r) # more
           \<and> (engine_completions evs = 0 \<longrightarrow> more = [])
           \<and> ClearTimeout \<in> set acts \<and> timer c = Cleared \<and> \<not> timedOut c
           \<and> notifications acts = []"
proof -
  let ?c = "\<lparr>timedOut = False, timer = Pending, callback = Some f\<rparr>"
  let ?d = "?c\<lparr>timer := Cleared\<rparr>"
  from applyEffect_starts [OF assms, of "Some f"] obtain a where
    a: "applyEffect self effectName target (Some f) = Inr (Some ?c, a)"
    and na: "notifications a = []" and ca: "callbacks a = []"
    by blast
  have step: "call_step self ?c (EngineCallback r) = (?d, [ClearTimeout, Callback f r])"
    by (simp add: engine_step clearTimeout_def)
  let ?rest = "snd (run_call self ?d evs)"
  have rest: "notifications ?rest = [] \<and> timer (fst (run_call self ?d evs)) = Cleared
      \<and> \<not> timedOut (fst (run_call self ?d evs))"
    by (rule run_call_cleared) simp_all
  have only: "engine_completions evs = 0 \<Longrightarrow> ?rest = []"
    using run_call_only_timer [of ?d evs self] by simp
  have "effect_session self effectName target (Some f) (EngineCallback r # evs)
          = Inr (Some (fst (run_call self ?d evs)), a @ [ClearTimeout, Callback f r] @ ?rest)"
    by (simp add: effect_session_run [OF a] run_call_Cons step del: run_call.simps)
  moreover have "callbacks (a @ [ClearTimeout, Callback f r] @ ?rest) = (f, r) # callbacks ?rest"
    using ca by (simp add: callbacks_simps)
  moreover have "engine_completions evs = 0 \<longrightarrow> callbacks ?rest = []"
    using only by (simp add: callbacks_simps)
  moreover have "notifications (a @ [ClearTimeout, Callback f r] @ ?rest) = []"
    using na rest by (simp add: notifications_simps)
  ultimately show ?thesis using rest by auto
qed

theorem engine_before_timeout_witness:
  "\<exists>c acts. effect_session demo_plugin ''blur'' (TJQuery [4, 5]) (Some 7)
               [EngineCallback 8, TimerFires] = Inr (Some c, acts)
           \<and> callbacks acts = [(7, 8)]
           \<and> ClearTimeout \<in> set acts \<and> timer c = Cleared \<and> \<not> timedOut c
           \<and> notifications acts = []"
  using engine_before_timeout [OF demo_blur, of "TJQuery [4, 5]" 7 8 "[TimerFires]"]
  by (simp add: engine_completions_def)


text \<open>
  The claim C2 as it is written fails for a callback that is not a function: the engine
  completes first, yet the timer is not cleared, no callback runs and the notification
  is raised.
\<close>

theorem engine_before_timeout_counterexample:
  "effect_session demo_plugin ''blur'' (TNative 4) None [EngineCallback 8, TimerFires]
     = Inr (Some \<lparr>timedOut = True, timer = Fired, callback = None\<rparr>,
            [SetTimeout 30000, Process (TNative 4) ''blur'' [(''amount'', ''0.5'')],
             Trigger ''image:effectError'', Handler 3])"
  by (simp add: effect_session_def applyEffect_def demo_plugin_def extend_defaults_def
      or_default_def call_step_def engine_callback_def timer_fires_def trigger_def
      user_handlers_def)


text \<open>
  C10. For a call with a configured effect name and a target that is an element or a
  jQuery object, whose callback is not a function: the completion of the engine before
  the timeout does not clear the timer and invokes nothing. The timer stays pending,
  and when it fires afterwards, one \<open>image:effectError\<close> notification is raised although
  the effect completed.
\<close>

theorem no_callback_leaves_timer:
  assumes "map_of (plugin_effects self) effectName = Some effect"
    and "target \<noteq> TUndefined" and "target \<noteq> TNull"
  shows "\<exists>c acts.
           effect_session self effectName target None (EngineCallback r # evs)
             = Inr (Some c, acts)
           \<and> ClearTimeout \<notin> set acts \<and> callbacks acts = []
           \<and> (if TimerFires \<in> set evs
              then notifications acts = [''image:effectError''] \<and> timedOut c \<and> timer c = Fired
              else notifications acts = [] \<and> \<not> timedOut c \<and> timer c = Pending)"
proof -
  let ?c = "\<lparr>timedOut = False, timer = Pending, callback = None\<rparr>"
  from applyEffect_starts [OF assms, of None] obtain a where
    a: "applyEffect self effectName target None = Inr (Some ?c, a)"
    and na: "notifications a = []" and ca: "callbacks a = []" and cl: "ClearTimeout \<notin> set a"
    by blast
  have step: "call_step self ?c (EngineCallback r) = (?c, [])"
    by (simp add: engine_step)
  have session: "effect_session self effectName target None (EngineCallback r # evs)
          = Inr (Some (fst (run_call self ?c evs)), a @ snd (run_call self ?c evs))"
    by (simp add: effect_session_run [OF a] run_call_Cons step del: run_call.simps)
  have quiet: "callbacks (snd (run_call self ?c evs)) = []
      \<and> ClearTimeout \<notin> set (snd (run_call self ?c evs))"
    using run_call_no_callback [of ?c self evs] by simp
  have race: "if TimerFires \<in> set evs
    then notifications (snd (run_call self ?c evs)) = [''image:effectError'']
         \<and> timedOut (fst (run_call self ?c evs)) \<and> timer (fst (run_call self ?c evs)) = Fired
    else notifications (snd (run_call self ?c evs)) = []
         \<and> \<not> timedOut (fst (run_call self ?c evs)) \<and> timer (fst (run_call self ?c evs)) = Pending"
    by (rule run_call_pending_no_callback) simp_all
  show ?thesis
    using quiet race na ca cl
    by (simp add: session notifications_simps callbacks_simps split: if_splits)
qed


theorem no_callback_leaves_timer_witness:
  "\<exists>c acts. effect_session demo_plugin ''blur'' (TNative 4) None
               [EngineCallback 8, EngineCallback 8, TimerFires] = Inr (Some c, acts)
           \<and> ClearTimeout \<notin> set acts \<and> callbacks acts = []
           \<and> notifications acts = [''image:effectError''] \<and> timedOut c \<and> timer c = Fired"
  using no_callback_leaves_timer [OF demo_blur, of "TNative 4" 8 "[EngineCallback 8, TimerFires]"]
  by simp

section \<open>Grid drawing on a canvas\<close>

lemma vertical_lines_returns:
  "0 < gridSize \<Longrightarrow> \<exists>out. vertical_lines canvas gridSize x ctx = Some out"
proof (induction "nat (canvas_width canvas - x)" arbitrary: x ctx rule: less_induct)
  case less
  show ?case
  proof (cases "x < canvas_width canvas")
    case True
    then have "nat (canvas_width canvas - (x + gridSize)) < nat (canvas_width canvas - x)"
      using less.prems by simp
    from less.hyps [OF this less.prems] True show ?thesis
      by (subst vertical_lines.simps) simp
  next
    case False
    then show ?thesis by (subst vertical_lines.simps) simp
  qed
qed

lemma horizontal_lines_returns:
  "0 < gridSize \<Longrightarrow> \<exists>out. horizontal_lines canvas gridSize y ctx = Some out"
proof (induction "nat (canvas_height canvas - y)" arbitrary: y ctx rule: less_induct)
  case less
  show ?case
  proof (cases "y < canvas_height canvas")
    case True
    then have "nat (canvas_height canvas - (y + gridSize)) < nat (canvas_height canvas - y)"
      using less.prems by simp
    from less.hyps [OF this less.prems] True show ?thesis
      by (subst horizontal_lines.simps) simp
  next
    case False
    then show ?thesis by (subst horizontal_lines.simps) simp
  qed
qed

lemma buildGrid_returns:
  "0 < gridSize \<Longrightarrow> \<exists>out. buildGrid canvas gridSize color lineWidth = Some out"
proof -
  assume g: "0 < gridSize"
  from vertical_lines_returns [OF g] obtain c1 where
    "vertical_lines canvas gridSize 0 [LineWidth lineWidth, StrokeStyle color] = Some c1" by blast
  moreover from horizontal_lines_returns [OF g] obtain c2 where
    "horizontal_lines canvas gridSize 0 c1 = Some c2" by blast
  ultimately show ?thesis by (simp add: buildGrid_def)
qed


text \<open>
  C9. On a canvas of width 100 and height 100 with grid size 25, \<open>buildGrid\<close> returns, and
  the path it strokes is made of the vertical segments at \<open>x = 0, 25, 50, 75\<close> followed by
  the horizontal segments at \<open>y = 0, 25, 50, 75\<close>, and of nothing else.
\<close>

theorem buildGrid_100_by_25:
  "buildGrid \<lparr>canvas_width = 100, canvas_height = 100\<rparr> 25 color lineWidth =
     Some [LineWidth lineWidth, StrokeStyle color,
           MoveTo 0 0, LineTo 0 100, MoveTo 25 0, LineTo 25 100,
           MoveTo 50 0, LineTo 50 100, MoveTo 75 0, LineTo 75 100,
           MoveTo 0 0, LineTo 99 0, MoveTo 0 25, LineTo 99 25,
           MoveTo 0 50, LineTo 99 50, MoveTo 0 75, LineTo 99 75,
           Stroke]"
  by (simp add: buildGrid_def vertical_lines.simps horizontal_lines.simps)


section \<open>The guard on dimensions\<close>

lemma is_digit_digit_char: "n < 10 \<Longrightarrow> is_digit (digit_char n)"
  by (simp add: is_digit_def digit_char_def)

lemma dec_digit: "\<exists>c r. dec n = c # r \<and> is_digit c"
proof (induction n rule: dec.induct)
  case (1 n)
  show ?case
  proof (cases "n < 10")
    case True
    then show ?thesis by (subst dec.simps) (simp add: is_digit_digit_char)
  next
    case False
    with 1 obtain c r where "dec (n div 10) = c # r" "is_digit c" by blast
    with False show ?thesis by (subst dec.simps) simp
  qed
qed

lemma layout_digit:
  assumes "ds = c # r" and "is_digit c"
  shows "\<exists>c' r'. layout ds n = c' # r' \<and> is_digit c'"
proof -
  have zero: "is_digit 48" by (simp add: is_digit_def)
  have tk: "0 < n \<Longrightarrow> take (nat n) ds = c # take (nat n - 1) r"
    using assms(1) by (cases "nat n") simp_all
  show ?thesis
    using assms zero tk by (auto simp add: layout_def Let_def)
qed

lemma digit_not_space: "is_digit c \<Longrightarrow> \<not> StrWhiteSpaceChar c \<and> c \<noteq> 45 \<and> c \<noteq> 43"
  by (auto simp add: is_digit_def StrWhiteSpaceChar_def)

lemma parse_digits_None: "parse_digits s = None \<longleftrightarrow> (case s of [] \<Rightarrow> True | c # _ \<Rightarrow> \<not> is_digit c)"
  by (cases s) (simp_all add: parse_digits_def)

lemma starts_with_integer_digit: "is_digit c \<Longrightarrow> starts_with_integer (c # r)"
  using digit_not_space [of c] by (simp add: starts_with_integer_def)

lemma starts_with_integer_minus: "is_digit c \<Longrightarrow> starts_with_integer (45 # c # r)"
  by (simp add: starts_with_integer_def StrWhiteSpaceChar_def)

lemma parse_signed:
  "(case parse_digits (if s \<noteq> [] \<and> (hd s = 45 \<or> hd s = 43) then tl s else s) of
      None \<Rightarrow> None
    | Some n \<Rightarrow> Some (if s \<noteq> [] \<and> hd s = 45 then - int n else int n)) = None
   \<longleftrightarrow>
   \<not> (case s of
        [] \<Rightarrow> False
      | c # r \<Rightarrow>
          if c = 45 \<or> c = 43 then (case r of [] \<Rightarrow> False | c' # _ \<Rightarrow> is_digit c')
          else is_digit c)"
proof -
  have drop: "\<And>t f. ((case parse_digits t of None \<Rightarrow> None | Some n \<Rightarrow> Some (f n)) = None)
                 = (parse_digits t = None)"
    by (simp split: option.splits)
  have sign: "\<not> is_digit 45" "\<not> is_digit 43"
    by (simp_all add: is_digit_def)
  show ?thesis
  proof (cases s)
    case Nil
    then show ?thesis by (simp add: drop parse_digits_None)
  next
    case (Cons c r)
    with sign show ?thesis by (cases r) (auto simp add: drop parse_digits_None)
  qed
qed

lemma parseInt10_NaN: "isNaN (parseInt10 v) \<longleftrightarrow> \<not> starts_with_integer (ToString v)"
  unfolding isNaN_def parseInt10_def starts_with_integer_def Let_def
  by (rule parse_signed)

lemma number_string_integer: "starts_with_integer (number_string m e)"
proof (cases "m = 0")
  case True
  then show ?thesis
    by (simp add: number_string_def starts_with_integer_digit is_digit_def)
next
  case False
  obtain s e' where st: "strip_zeros (nat \<bar>m\<bar>) e = (s, e')" by (cases "strip_zeros (nat \<bar>m\<bar>) e")
  obtain c r where d: "dec s = c # r" "is_digit c" using dec_digit by blast
  from layout_digit [OF d] obtain c' r' where
    l: "layout (dec s) (int (length (dec s)) + e') = c' # r'" "is_digit c'" by blast
  from False st show ?thesis
    by (simp add: number_string_def Let_def l starts_with_integer_digit
        starts_with_integer_minus)
qed

lemma str_simps: "str [] = []" "str (c # s) = of_char c # str s"
  by (simp_all add: str_def)

lemma parseInt10_accepted: "isNaN (parseInt10 v) \<longleftrightarrow> \<not> accepted_dimension v"
  by (cases v)
    (simp_all add: parseInt10_NaN number_string_integer,
     simp_all add: starts_with_integer_def StrWhiteSpaceChar_def is_digit_def str_def)

text \<open>
  Some values and their strings: \<open>12.5\<close>, \<open>1e21\<close>, \<open>5e-7\<close>, a string that starts with a
  no-break space, the array \<open>[7]\<close> and a plain object.
\<close>

lemma dimension_examples:
  "ToString (JDec 125 (- 1)) = str ''12.5''"
  "ToString (JDec 1 21) = str ''1e+21''"
  "ToString (JDec 5 (- 7)) = str ''5e-7''"
  "accepted_dimension (JStr (0xA0 # str ''5''))"
  "accepted_dimension (JObject (str ''7''))"
  "\<not> accepted_dimension (JObject (str ''[object Object]''))"
  by (simp_all add: starts_with_integer_def StrWhiteSpaceChar_def is_digit_def
      number_string_def strip_zeros.simps layout_def dec.simps digit_char_def str_def)

section \<open>Initialisation of the concrete instance\<close>

lemmas dom_defs = appendCanvas_def appendImage_def jq_def by_id_def with_id_def has_id_def
  jq_find_def node_def descendants_def jq_append_def jq_after_def moveOffscreen_def jq_css_def
  set_style_def jq_attr_def set_attr_def jq_remove_def id_of_def

lemma step1b: "appendCanvas demo_page (Selector ''body'') ''stage'' = page1"
  by (simp add: demo_page_def page1_def dom_defs offscreen_def)

lemma step2: "appendCanvas page1 (Selector ''body'') ''scratchCanvas'' = page2"
  by (simp add: page1_def page2_def dom_defs offscreen_def)

lemma step3: "appendImage page2 (Element 3) ''img_photo'' = page3"
  by (simp add: page2_def page3_def dom_defs offscreen_def)

lemma page3_ids:
  "jq page3 (Selector ''#img_photo'') = [6]"
  "jq page3 (Selector ''#stage'') = [4]"
  "jq page3 (Selector ''#scratchCanvas'') = [5]"
  by (simp_all add: page3_def dom_defs)

lemma demo_page_id: "id_of demo_page 3 = ''photo''"
  by (simp add: demo_page_def dom_defs)


lemma demo_values:
  "starts_with_integer (str ''abc'') = False"
  "starts_with_integer (str ''12px'') = True"
  "ToString (JNum (- 5)) = str ''-5''"
  "ToString (JNum 0) = str ''0''"
  "ToString (JStr (str ''12px'')) = str ''12px''"
  by (simp_all add: starts_with_integer_def StrWhiteSpaceChar_def is_digit_def
      number_string_def strip_zeros.simps layout_def dec.simps digit_char_def str_def)

lemma step4:
  "setDimensions page3 (Some [4]) (Some \<lparr>width = JNum (- 5), height = JStr (str ''abc'')\<rparr>) = page4"
  by (simp add: setDimensions_def setWidth_def setHeight_def parseInt10_accepted demo_values
      page3_def page4_def jq_attr_def set_attr_def del: ToString.simps)

lemma step5:
  "setDimensions page4 (Some [5]) (Some \<lparr>width = JStr (str ''12px''), height = JNum 0\<rparr>) = demo_ready"
  by (simp add: setDimensions_def setWidth_def setHeight_def parseInt10_accepted demo_values
      page4_def demo_ready_def jq_attr_def set_attr_def del: ToString.simps)

lemma demo_settings:
  "scratchCanvasId (settings demo_plugin) = ''scratchCanvas''"
  "scratchImageId (settings demo_plugin) = ''img''"
  "stageId (settings demo_plugin) = ''stage''"
  "stageWidth (settings demo_plugin) = JNum (- 5)"
  "stageHeight (settings demo_plugin) = JStr (str ''abc'')"
  "scratchCanvasWidth (settings demo_plugin) = JStr (str ''12px'')"
  "scratchCanvasHeight (settings demo_plugin) = JNum 0"
  "canvasAPI (settings demo_plugin) = ''easeljs''"
  "effectsAPI (settings demo_plugin) = ''pixastic''"
  "effects (settings demo_plugin) = [(''blur'', \<lparr>options = Some [(''amount'', ''0.5'')]\<rparr>)]"
  "onLoad (settings demo_plugin) = Some 1"
  "onLoadError (settings demo_plugin) = Some 2"
  "onEffectError (settings demo_plugin) = Some 3"
  by (simp_all add: demo_plugin_def extend_defaults_def or_default_def or_default_val_def)

lemma demo_ready_canvases:
  "getContext demo_ready (Some 4) = Inr 4"
  "getContext demo_ready (Some 5) = Inr 5"
  by (simp_all add: getContext_def demo_ready_def node_def)

lemma init_demo:
  "init demo_page 3 (settings demo_plugin) = Inr (demo_plugin, demo_ready, [CheckImageLoaded])"
proof -
  have "init demo_page 3 (settings demo_plugin)
          = Inr (addHandler
                   (addHandler
                      (addHandler
                         \<lparr> element = 3, settings = settings demo_plugin,
                           canvasLib = ''easeljs'', effectsLib = ''pixastic'',
                           plugin_effects = [(''blur'', \<lparr>options = Some [(''amount'', ''0.5'')]\<rparr>)],
                           scratchImageEl = [6], stageEl = [4], scratchCanvasEl = [5],
                           stage = 4, stageContext = 4, scratchCanvas = 5, scratchContext = 5,
                           bindings = [] \<rparr>
                         ''image:loaded'' (Some 1))
                      ''image:loadError'' (Some 2))
                   ''image:effectError'' (Some 3),
                 demo_ready, [CheckImageLoaded])"
    unfolding init_def Let_def demo_settings demo_page_id
    by (simp add: step1b step2 step3 page3_ids step4 step5 getStage_def demo_ready_canvases)
  then show ?thesis
    by (simp add: addHandler_def demo_plugin_def)
qed



section \<open>The Load Detector after initialisation\<close>

lemma init_bindings:
  assumes "init d el s = Inr (self, d', tasks)"
  shows "bindings self = plugin_handlers s"
  using assms
  by (auto simp add: init_def Let_def addHandler_def plugin_handlers_def
      split: option.splits sum.splits)

lemma plugin_handlers_names:
  "(n, h) \<in> set (plugin_handlers s) \<Longrightarrow>
   h \<noteq> TriggerLoaded \<and> n \<in> {''image:loaded'', ''image:loadError'', ''image:effectError''}"
  by (auto simp add: plugin_handlers_def split: option.splits)

lemma dispatch_quiet:
  assumes "\<forall>(n, h) \<in> set bs. n \<noteq> name"
  shows "concat (map (\<lambda>(n, h). if n = name then run_handler self h else []) bs) = []"
  using assms by (induction bs) (auto split: prod.splits)

lemma plugin_handlers_quiet:
  assumes "name \<notin> {''image:loaded'', ''image:loadError'', ''image:effectError''}"
  shows "concat (map (\<lambda>(n, h). if n = name then run_handler self h else [])
           (plugin_handlers s)) = []"
proof (rule dispatch_quiet)
  show "\<forall>(n, h) \<in> set (plugin_handlers s). n \<noteq> name"
    using assms plugin_handlers_names [of _ _ s] by blast
qed

lemma dispatch_initialised:
  assumes "bindings self = plugin_handlers s"
  shows "dispatch self ev = []"
  by (cases ev) (simp_all add: dispatch_def assms event_name_def plugin_handlers_quiet)

lemma browser_events_initialised:
  assumes "bindings self = plugin_handlers s"
  shows "browser_events self evs = []"
  by (induction evs) (simp_all add: browser_events_def dispatch_initialised [OF assms])

lemma dispatch_subscribed:
  assumes "bindings self = plugin_handlers s @ [(''load'', TriggerLoaded)]"
  shows "notifications (dispatch self ev) = (if ev = Load then [''image:loaded''] else [])"
  by (cases ev)
    (simp_all add: dispatch_def assms event_name_def plugin_handlers_quiet run_handler_def
      notifications_trigger notifications_simps)

lemma browser_events_subscribed:
  assumes "bindings self = plugin_handlers s @ [(''load'', TriggerLoaded)]"
  shows "notifications (browser_events self evs)
           = map (\<lambda>ev. ''image:loaded'') (filter (\<lambda>ev. ev = Load) evs)"
proof (induction evs)
  case Nil
  show ?case by (simp add: browser_events_def notifications_simps)
next
  case (Cons ev evs)
  then show ?case
    using dispatch_subscribed [OF assms, of ev]
    by (simp add: browser_events_def notifications_simps)
qed

text \<open>
  C4. The check runs on the instance that \<open>init\<close> returned. When the image reports
  \<open>complete\<close> at that time, exactly one notification is raised, whatever the browser
  reports afterwards: \<open>image:loadError\<close> and no \<open>image:loaded\<close> when the intrinsic width is
  zero, \<open>image:loaded\<close> and no \<open>image:loadError\<close> when the intrinsic width is known and not
  zero.
\<close>

theorem complete_image_one_notification:
  assumes "init d el s = Inr (self, d', tasks)" and "complete img"
  shows "length (notifications (load_detector self img evs)) = 1
       \<and> (naturalWidth img = Some 0 \<longrightarrow>
            notifications (load_detector self img evs) = [''image:loadError''])
       \<and> (\<forall>w. naturalWidth img = Some w \<and> 0 < w \<longrightarrow>
            notifications (load_detector self img evs) = [''image:loaded''])"
  using assms(2) browser_events_initialised [OF init_bindings [OF assms(1)]]
  by (simp add: load_detector_def checkImageLoaded_def checkImageNotFound_def
      notifications_simps notifications_trigger)

theorem complete_image_one_notification_witness:
  "notifications (load_detector demo_plugin \<lparr>complete = True, naturalWidth = Some 0\<rparr> [Load, Error])
     = [''image:loadError'']
   \<and> notifications (load_detector demo_plugin \<lparr>complete = True, naturalWidth = Some 640\<rparr> [Error, Load])
     = [''image:loaded'']"
  using complete_image_one_notification
      [OF init_demo, of "\<lparr>complete = True, naturalWidth = Some 0\<rparr>" "[Load, Error]"]
    complete_image_one_notification
      [OF init_demo, of "\<lparr>complete = True, naturalWidth = Some 640\<rparr>" "[Error, Load]"]
  by simp

text \<open>
  C8. When the image does not report \<open>complete\<close> at the time of the check, the instance
  never raises \<open>image:loadError\<close> afterwards, whatever the browser reports, a failure to
  load included: the check binds one handler, to \<open>load\<close>, and nothing to \<open>error\<close>, so the
  notifications are one \<open>image:loaded\<close> for each \<open>load\<close> event.
\<close>

theorem incomplete_image_never_load_error:
  assumes "init d el s = Inr (self, d', tasks)" and "\<not> complete img"
  shows "''image:loadError'' \<notin> set (notifications (load_detector self img evs))
       \<and> notifications (load_detector self img evs)
            = map (\<lambda>ev. ''image:loaded'') (filter (\<lambda>ev. ev = Load) evs)
       \<and> bindings (fst (checkImageLoaded self img)) = bindings self @ [(''load'', TriggerLoaded)]
       \<and> ''error'' \<notin> fst ` set (bindings (fst (checkImageLoaded self img)))"
proof -
  let ?self = "self\<lparr>bindings := bindings self @ [(''load'', TriggerLoaded)]\<rparr>"
  have b: "bindings ?self = plugin_handlers s @ [(''load'', TriggerLoaded)]"
    using init_bindings [OF assms(1)] by simp
  have check: "checkImageLoaded self img = (?self, [])"
    using assms(2) by (simp add: checkImageLoaded_def checkImageNotFound_def)
  have n: "\<And>es. notifications (load_detector self img es)
              = map (\<lambda>ev. ''image:loaded'') (filter (\<lambda>ev. ev = Load) es)"
    using browser_events_subscribed [OF b] by (simp add: load_detector_def check)
  have "''error'' \<notin> fst ` set (plugin_handlers s)"
    using plugin_handlers_names [of "''error''" _ s] by auto
  then show ?thesis
    using n b by (auto simp add: check)
qed


theorem incomplete_image_never_load_error_witness:
  "''image:loadError'' \<notin> set (notifications
       (load_detector demo_plugin \<lparr>complete = False, naturalWidth = Some 0\<rparr> [Error, Load, Error]))
   \<and> notifications
       (load_detector demo_plugin \<lparr>complete = False, naturalWidth = Some 0\<rparr> [Error, Load, Error])
     = [''image:loaded'']"
  using incomplete_image_never_load_error
      [OF init_demo, of "\<lparr>complete = False, naturalWidth = Some 0\<rparr>" "[Error, Load, Error]"]
  by simp

section \<open>Dimensions during initialisation\<close>

























section \<open>Provisioning twice\<close>

lemma flatten_unfold: "flatten e = e # concat (map flatten (kids e))"
  by (cases e) simp

lemma find_append:
  "find P (xs @ ys) = (case find P xs of None \<Rightarrow> find P ys | Some x \<Rightarrow> Some x)"
  by (induction xs) simp_all

lemma find_map_key: "find P (map f xs) = map_option f (find (\<lambda>x. P (f x)) xs)"
  by (induction xs) simp_all

lemma find_concat_map:
  assumes "\<And>x. x \<in> set ks \<Longrightarrow> find P (F x) = map_option g (find Q (G x))"
  shows "find P (concat (map F ks)) = map_option g (find Q (concat (map G ks)))"
  using assms
proof (induction ks)
  case Nil
  show ?case by simp
next
  case (Cons k ks)
  then show ?case by (cases "find Q (G k)") (simp_all add: find_append)
qed

lemma jq_find_nonempty: "jq_find d el i \<noteq> [] \<longleftrightarrow> (\<exists>k \<in> set el. has_desc d k i)"
  by (auto simp add: jq_find_def has_desc_def filter_empty_conv split: option.splits)

subsection \<open>Styling keeps the shape of the document\<close>

lemma set_style_Elem:
  "set_style props (Elem k t i a s ks)
     = Elem k t i a (foldl (\<lambda>st (n, v). AList.update n v st) s props) ks"
  by (simp add: set_style_def)

lemma update_style_proj:
  "key (update_node p (set_style props) x) = key x"
  "tag (update_node p (set_style props) x) = tag x"
  "ident (update_node p (set_style props) x) = ident x"
  "kids (update_node p (set_style props) x) = map (update_node p (set_style props)) (kids x)"
  by (cases x; simp add: Let_def set_style_Elem)+

lemma flatten_update_style:
  "flatten (update_node p (set_style props) e) = map (update_node p (set_style props)) (flatten e)"
proof (induction e)
  case (Elem k t i a s ks)
  let ?u = "update_node p (set_style props)"
  have "flatten (?u (Elem k t i a s ks))
      = ?u (Elem k t i a s ks) # concat (map flatten (map ?u ks))"
    by (subst flatten_unfold) (simp add: update_style_proj del: update_node.simps)
  also have "map flatten (map ?u ks) = map (\<lambda>x. map ?u (flatten x)) ks"
    using Elem.IH by simp
  finally show ?case by (simp add: map_concat o_def)
qed

lemma has_id_update_style: "has_id i (update_node p (set_style props) x) = has_id i x"
  by (simp add: has_id_def update_style_proj)

lemma descendants_update_style:
  "descendants (update_node p (set_style props) e)
     = map (update_node p (set_style props)) (descendants e)"
  by (simp add: descendants_def update_style_proj flatten_update_style map_concat o_def)

lemma node_update_style:
  "node (d\<lparr>root := update_node p (set_style props) (root d)\<rparr>) k
     = map_option (update_node p (set_style props)) (node d k)"
  by (simp add: node_def flatten_update_style find_map_key update_style_proj)

lemma with_id_update_style:
  "with_id (d\<lparr>root := update_node p (set_style props) (root d)\<rparr>) i
     = map (update_node p (set_style props)) (with_id d i)"
  by (simp add: with_id_def flatten_update_style filter_map o_def has_id_update_style)

lemma jq_update_style:
  "jq (d\<lparr>root := update_node p (set_style props) (root d)\<rparr>) t = jq d t"
  by (simp add: jq_def by_id_def with_id_update_style take_map update_style_proj o_def
      flatten_update_style filter_map split: target.splits list.splits)

lemma has_desc_update_style:
  "has_desc (d\<lparr>root := update_node p (set_style props) (root d)\<rparr>) k i = has_desc d k i"
  by (cases "node d k")
    (simp_all add: has_desc_def node_update_style descendants_update_style has_id_update_style)

lemma in_document_update_style:
  "in_document (d\<lparr>root := update_node p (set_style props) (root d)\<rparr>) k = in_document d k"
  by (simp add: in_document_def node_update_style)

lemma jq_css_Cons:
  "jq_css d (p # el) props = jq_css (d\<lparr>root := update_node p (set_style props) (root d)\<rparr>) el props"
  by (simp add: jq_css_def)

lemma jq_css_preserves:
  "jq (jq_css d el props) t = jq d t \<and> has_desc (jq_css d el props) k i = has_desc d k i
   \<and> in_document (jq_css d el props) k = in_document d k"
proof (induction el arbitrary: d)
  case Nil
  show ?case by (simp add: jq_css_def)
next
  case (Cons p el)
  show ?case
    by (simp add: jq_css_Cons Cons.IH jq_update_style has_desc_update_style
        in_document_update_style)
qed


lemma offscreen_twice:
  "foldl (\<lambda>st (n, v). AList.update n v st)
     (foldl (\<lambda>st (n, v). AList.update n v st) s
        [(''position'', ''absolute''), (''top'', ''-9999em''), (''left'', ''-9999em'')])
     [(''position'', ''absolute''), (''top'', ''-9999em''), (''left'', ''-9999em'')]
   = foldl (\<lambda>st (n, v). AList.update n v st) s
       [(''position'', ''absolute''), (''top'', ''-9999em''), (''left'', ''-9999em'')]"
proof -
  let ?s = "AList.update ''left'' ''-9999em''
              (AList.update ''top'' ''-9999em'' (AList.update ''position'' ''absolute'' s))"
  have 1: "AList.update ''position'' ''absolute'' ?s = ?s"
    by (rule update_triv) (simp add: update_conv')
  have 2: "AList.update ''top'' ''-9999em'' ?s = ?s"
    by (rule update_triv) (simp add: update_conv')
  have 3: "AList.update ''left'' ''-9999em'' ?s = ?s"
    by (rule update_triv) (simp add: update_conv')
  show ?thesis by (simp add: 1 2 3)
qed

lemma update_style_twice:
  assumes "\<And>s. foldl (\<lambda>st (n, v). AList.update n v st)
                (foldl (\<lambda>st (n, v). AList.update n v st) s props) props
              = foldl (\<lambda>st (n, v). AList.update n v st) s props"
  shows "update_node p (set_style props) (update_node p (set_style props) e)
           = update_node p (set_style props) e"
proof (induction e)
  case (Elem k t i a s ks)
  have "map (\<lambda>x. update_node p (set_style props) (update_node p (set_style props) x)) ks
      = map (update_node p (set_style props)) ks"
    using Elem.IH by simp
  then show ?case by (simp add: Let_def set_style_Elem assms o_def)
qed

lemma moveOffscreen_twice:
  assumes "length el \<le> 1"
  shows "root (moveOffscreen (moveOffscreen d el) el) = root (moveOffscreen d el)"
proof (cases el)
  case Nil
  then show ?thesis by (simp add: moveOffscreen_def jq_css_def)
next
  case (Cons k ks)
  with assms have "el = [k]" by simp
  then show ?thesis
    by (simp add: moveOffscreen_def jq_css_def update_style_twice [OF offscreen_twice])
qed

lemma by_id_length: "length (jq d (Selector (CHR ''#'' # i))) \<le> 1"
  by (simp add: jq_def by_id_def)

subsection \<open>Appending a child\<close>

lemma add_child_proj:
  "key (add_child p c x) = key x"
  "tag (add_child p c x) = tag x"
  "ident (add_child p c x) = ident x"
  by (cases x; simp)+

lemma add_child_absent: "p \<notin> key ` set (flatten e) \<Longrightarrow> add_child p c e = e"
proof (induction e)
  case (Elem k t i a s ks)
  have "\<And>x. x \<in> set ks \<Longrightarrow> add_child p c x = x"
    using Elem by fastforce
  then have "map (add_child p c) ks = ks" by (simp add: map_idI)
  with Elem.prems show ?case by simp
qed

lemma flatten_add_child_unfold:
  "flatten (add_child p c (Elem k t i a s ks))
     = add_child p c (Elem k t i a s ks)
       # concat (map flatten (map (add_child p c) ks)) @ (if k = p then flatten c else [])"
  by simp

lemma flatten_add_child:
  "x \<in> set (flatten e) \<Longrightarrow> add_child p c x \<in> set (flatten (add_child p c e))"
proof (induction e)
  case (Elem k t i a s ks)
  from Elem.prems consider "x = Elem k t i a s ks"
    | y where "y \<in> set ks" "x \<in> set (flatten y)" by auto
  then show ?case
  proof cases
    case 1
    then show ?thesis by (simp only: flatten_add_child_unfold) simp
  next
    case 2
    then have "add_child p c x \<in> set (flatten (add_child p c y))" by (rule Elem.IH)
    with 2 show ?thesis by (simp only: flatten_add_child_unfold) auto
  qed
qed

lemma find_add_child:
  assumes "\<forall>y \<in> set (flatten c). key y \<noteq> q"
  shows "find (\<lambda>x. key x = q) (flatten (add_child p c e))
           = map_option (add_child p c) (find (\<lambda>x. key x = q) (flatten e))"
proof (induction e)
  case (Elem k t i a s ks)
  have fresh: "find (\<lambda>x. key x = q) (flatten c) = None"
    using assms by (simp add: find_None_iff)
  have kids: "find (\<lambda>x. key x = q) (concat (map (\<lambda>x. flatten (add_child p c x)) ks))
      = map_option (add_child p c) (find (\<lambda>x. key x = q) (concat (map flatten ks)))"
    by (rule find_concat_map) (rule Elem.IH)
  show ?case
  proof (cases "k = q")
    case True
    then show ?thesis by (simp only: flatten_add_child_unfold) (simp add: add_child_proj)
  next
    case False
    then have "find (\<lambda>x. key x = q) (flatten (add_child p c (Elem k t i a s ks)))
        = find (\<lambda>x. key x = q)
            (concat (map (\<lambda>x. flatten (add_child p c x)) ks) @ (if k = p then flatten c else []))"
      by (simp only: flatten_add_child_unfold) (simp add: add_child_proj o_def)
    also have "\<dots> = map_option (add_child p c) (find (\<lambda>x. key x = q) (concat (map flatten ks)))"
      using fresh by (simp add: find_append kids split: option.splits)
    finally show ?thesis using False by simp
  qed
qed

lemma descendants_add_child:
  "y \<in> set (descendants x) \<Longrightarrow> add_child p c y \<in> set (descendants (add_child p c x))"
proof (cases x)
  case (Elem k t i a s ks)
  assume "y \<in> set (descendants x)"
  with Elem obtain z where "z \<in> set ks" "y \<in> set (flatten z)" by (auto simp add: descendants_def)
  then have "add_child p c z \<in> set (map (add_child p c) ks)"
    "add_child p c y \<in> set (flatten (add_child p c z))"
    by (simp_all add: flatten_add_child)
  with Elem show ?thesis by (auto simp add: descendants_def)
qed

lemma descendants_add_child_new:
  "key x = p \<Longrightarrow> c \<in> set (descendants (add_child p c x))"
  by (cases x) (auto simp add: descendants_def flatten_unfold [of c])


lemma in_document_keys: "in_document d k \<longleftrightarrow> k \<in> key ` set (flatten (root d))"
  by (auto simp add: in_document_def node_def find_None_iff)

lemma jq_append_Cons: "jq_append d (k # el) mk = jq_append (append_one d k mk) el mk"
  by (simp add: jq_append_def append_one_def)

lemma add_child_keys:
  "x \<in> set (flatten (add_child p c e)) \<Longrightarrow> key x \<in> key ` set (flatten e) \<union> key ` set (flatten c)"
proof (induction e)
  case (Elem k t i a s ks)
  from Elem.prems have "x = add_child p c (Elem k t i a s ks)
      \<or> (\<exists>y \<in> set ks. x \<in> set (flatten (add_child p c y))) \<or> x \<in> set (flatten c)"
    by (simp only: flatten_add_child_unfold) (auto split: if_splits)
  then show ?case
  proof (elim disjE bexE)
    assume "x = add_child p c (Elem k t i a s ks)"
    then show ?thesis by simp
  next
    fix y assume "y \<in> set ks" "x \<in> set (flatten (add_child p c y))"
    then have "key x \<in> key ` set (flatten y) \<union> key ` set (flatten c)" by (rule Elem.IH)
    with \<open>y \<in> set ks\<close> show ?thesis by auto
  next
    assume "x \<in> set (flatten c)"
    then show ?thesis by simp
  qed
qed

lemma bounded_append_one: "bounded d \<Longrightarrow> bounded (append_one d k (new_canvas i))"
  unfolding bounded_def append_one_def
  using add_child_keys [of _ k "new_canvas i (next_key d)" "root d"]
  by (fastforce simp add: new_canvas_def)

lemma node_append_one:
  assumes "q < next_key d"
  shows "node (append_one d k (new_canvas i)) q
           = map_option (add_child k (new_canvas i (next_key d))) (node d q)"
proof -
  have "\<forall>y \<in> set (flatten (new_canvas i (next_key d))). key y \<noteq> q"
    using assms by (simp add: new_canvas_def)
  then show ?thesis by (simp add: node_def append_one_def find_add_child)
qed

lemma bounded_in_document: "bounded d \<Longrightarrow> in_document d q \<Longrightarrow> q < next_key d"
  by (auto simp add: bounded_def in_document_keys)

lemma in_document_append_one:
  "bounded d \<Longrightarrow> in_document d q \<Longrightarrow> in_document (append_one d k (new_canvas i)) q"
  using node_append_one [of q d k i] bounded_in_document [of d q]
  by (auto simp add: in_document_def)

lemma has_desc_append_one:
  assumes "bounded d" and "has_desc d q i"
  shows "has_desc (append_one d k (new_canvas i)) q i"
proof -
  from assms(2) obtain e x where e: "node d q = Some e" "x \<in> set (descendants e)" "has_id i x"
    by (auto simp add: has_desc_def split: option.splits)
  then have "in_document d q" by (simp add: in_document_def)
  with assms(1) have "q < next_key d" by (rule bounded_in_document)
  then have "node (append_one d k (new_canvas i)) q
      = Some (add_child k (new_canvas i (next_key d)) e)"
    using e(1) by (simp add: node_append_one)
  moreover have "add_child k (new_canvas i (next_key d)) x
      \<in> set (descendants (add_child k (new_canvas i (next_key d)) e))"
    using e(2) by (rule descendants_add_child)
  moreover have "has_id i (add_child k (new_canvas i (next_key d)) x)"
    using e(3) by (simp add: has_id_def add_child_proj)
  ultimately show ?thesis by (auto simp add: has_desc_def)
qed

lemma has_desc_append_one_new:
  assumes "bounded d" and "in_document d k" and "i \<noteq> []"
  shows "has_desc (append_one d k (new_canvas i)) k i"
proof -
  from assms(2) obtain e where e: "node d k = Some e" by (auto simp add: in_document_def)
  then have k: "key e = k" by (auto simp add: node_def find_Some_iff)
  from assms(1,2) have "k < next_key d" by (rule bounded_in_document)
  then have "node (append_one d k (new_canvas i)) k
      = Some (add_child k (new_canvas i (next_key d)) e)"
    using e by (simp add: node_append_one)
  moreover have "new_canvas i (next_key d)
      \<in> set (descendants (add_child k (new_canvas i (next_key d)) e))"
    using k by (rule descendants_add_child_new)
  moreover have "has_id i (new_canvas i (next_key d))"
    using assms(3) by (simp add: has_id_def new_canvas_def)
  ultimately show ?thesis by (auto simp add: has_desc_def)
qed

lemma tagged_append_one: "tagged d q s \<Longrightarrow> tagged (append_one d k mk) q s"
proof -
  assume "tagged d q s"
  then obtain x where "x \<in> set (flatten (root d))" "key x = q" "tag x = s"
    by (auto simp add: tagged_def)
  then have "add_child k (mk (next_key d)) x \<in> set (flatten (add_child k (mk (next_key d)) (root d)))"
    "key (add_child k (mk (next_key d)) x) = q" "tag (add_child k (mk (next_key d)) x) = s"
    by (simp_all add: flatten_add_child add_child_proj)
  then show ?thesis unfolding tagged_def append_one_def by auto
qed

lemma root_append_one: "\<not> in_document d k \<Longrightarrow> root (append_one d k mk) = root d"
  by (simp add: append_one_def in_document_keys add_child_absent)


lemma jq_append_keeps:
  assumes "bounded d" and "in_document d q"
  shows "in_document (jq_append d el (new_canvas i)) q
       \<and> (has_desc d q i \<longrightarrow> has_desc (jq_append d el (new_canvas i)) q i)
       \<and> (tagged d q s \<longrightarrow> tagged (jq_append d el (new_canvas i)) q s)"
  using assms
proof (induction el arbitrary: d)
  case Nil
  then show ?case by (simp add: jq_append_def)
next
  case (Cons k el)
  have "bounded (append_one d k (new_canvas i))"
    "in_document (append_one d k (new_canvas i)) q"
    using Cons.prems by (simp_all add: bounded_append_one in_document_append_one)
  from Cons.IH [OF this] show ?case
    using Cons.prems
    by (auto simp add: jq_append_Cons has_desc_append_one tagged_append_one)
qed

lemma jq_append_adds:
  assumes "bounded d" and "i \<noteq> []" and "p \<in> set el" and "in_document d p"
  shows "has_desc (jq_append d el (new_canvas i)) p i"
  using assms
proof (induction el arbitrary: d)
  case Nil
  then show ?case by simp
next
  case (Cons k el)
  let ?d = "append_one d k (new_canvas i)"
  have b: "bounded ?d" "in_document ?d p"
    using Cons.prems by (simp_all add: bounded_append_one in_document_append_one)
  show ?case
  proof (cases "p = k")
    case True
    with Cons.prems have "has_desc ?d p i" by (simp add: has_desc_append_one_new)
    with jq_append_keeps [OF b, of el i] show ?thesis by (simp add: jq_append_Cons)
  next
    case False
    with Cons.prems have "p \<in> set el" by simp
    with Cons.IH [OF b(1) Cons.prems(2) _ b(2)] show ?thesis by (simp add: jq_append_Cons)
  qed
qed

lemma jq_append_absent:
  "\<forall>p \<in> set el. \<not> in_document d p \<Longrightarrow> root (jq_append d el mk) = root d"
proof (induction el arbitrary: d)
  case Nil
  show ?case by (simp add: jq_append_def)
next
  case (Cons k el)
  then have r: "root (append_one d k mk) = root d" by (simp add: root_append_one)
  then have "\<forall>p \<in> set el. \<not> in_document (append_one d k mk) p"
    using Cons.prems by (simp add: in_document_keys)
  from Cons.IH [OF this] r show ?case by (simp add: jq_append_Cons)
qed


lemma jq_tag:
  assumes "c \<noteq> CHR ''#''"
  shows "p \<in> set (jq d (Selector (c # s))) \<longleftrightarrow> tagged d p (c # s)"
proof -
  have "jq d (Selector (c # s)) = map key (filter (\<lambda>e. tag e = c # s) (flatten (root d)))"
    using assms by (simp add: jq_def)
  then show ?thesis unfolding tagged_def by auto
qed

lemma jq_css_same_root:
  "root d = root d' \<Longrightarrow> root (jq_css d el props) = root (jq_css d' el props)"
proof (induction el arbitrary: d d')
  case Nil
  then show ?case by (simp add: jq_css_def)
next
  case (Cons k el)
  show ?case unfolding jq_css_Cons by (rule Cons.IH) (simp add: Cons.prems)
qed

lemma same_root:
  assumes "root d = root d'"
  shows "jq d t = jq d' t" and "jq_find d el i = jq_find d' el i"
    and "root (moveOffscreen d el) = root (moveOffscreen d' el)"
    and "in_document d k = in_document d' k"
proof -
  show "jq d t = jq d' t"
    unfolding jq_def by_id_def with_id_def assms ..
  show "jq_find d el i = jq_find d' el i"
    unfolding jq_find_def node_def assms ..
  show "root (moveOffscreen d el) = root (moveOffscreen d' el)"
    unfolding moveOffscreen_def using assms by (rule jq_css_same_root)
  show "in_document d k = in_document d' k"
    unfolding in_document_def node_def assms ..
qed


lemma appendCanvas_unfold:
  "appendCanvas d t i =
     moveOffscreen
       (if jq_find d (jq d t) i = [] then jq_append d (jq d t) (new_canvas i) else d)
       (jq (if jq_find d (jq d t) i = [] then jq_append d (jq d t) (new_canvas i) else d)
          (Selector (CHR ''#'' # i)))"
proof -
  have "new_canvas i = (\<lambda>k. Elem k ''canvas'' i [] [] [])"
    by (rule ext) (simp add: new_canvas_def)
  then show ?thesis by (simp add: appendCanvas_def Let_def)
qed

lemma moveOffscreen_preserves:
  "jq (moveOffscreen d el) t = jq d t"
  "has_desc (moveOffscreen d el) k i = has_desc d k i"
  "in_document (moveOffscreen d el) k = in_document d k"
  using jq_css_preserves [of d el _ t k i] by (simp_all add: moveOffscreen_def)

lemma provision_step:
  assumes "bounded d" and "i \<noteq> []" and "plain_target t"
  defines "d1 \<equiv> (if jq_find d (jq d t) i = [] then jq_append d (jq d t) (new_canvas i) else d)"
  shows "jq_find d1 (jq d1 t) i \<noteq> [] \<or> (\<forall>p \<in> set (jq d1 t). \<not> in_document d1 p)"
proof (cases "jq_find d (jq d t) i = []")
  case False
  then show ?thesis by (simp add: d1_def)
next
  case True
  then have d1: "d1 = jq_append d (jq d t) (new_canvas i)" by (simp add: d1_def)
  show ?thesis
  proof (cases "\<exists>p \<in> set (jq d t). in_document d p")
    case True
    then obtain p where p: "p \<in> set (jq d t)" "in_document d p" by blast
    with assms(1,2) have desc: "has_desc d1 p i" unfolding d1 by (intro jq_append_adds)
    have "p \<in> set (jq d1 t)"
    proof (cases t)
      case (Element k)
      with p show ?thesis by (simp add: jq_def)
    next
      case (Selector s)
      show ?thesis
      proof (cases s)
        case Nil
        with Selector p show ?thesis by (simp add: jq_def)
      next
        case (Cons c r)
        with Selector assms(3) have c: "c \<noteq> CHR ''#''"
          by (auto simp add: plain_target_def simple_tag_def)
        with p Selector Cons have "tagged d p (c # r)" by (simp add: jq_tag)
        with jq_append_keeps [OF assms(1) p(2), of "jq d t" i "c # r"]
        have "tagged d1 p (c # r)" by (simp add: d1)
        with c Selector Cons show ?thesis by (simp add: jq_tag)
      qed
    qed
    with desc show ?thesis by (auto simp add: jq_find_nonempty)
  next
    case False
    then have r: "root d1 = root d" unfolding d1 by (intro jq_append_absent) simp
    with False show ?thesis
      using same_root(1) [OF r, of t] same_root(4) [OF r] by simp
  qed
qed

text \<open>
  The canvas variant is idempotent: on a document whose keys are below its next key, for
  a target that is an element or a tag selector and for an id of letters, digits,
  underscores and hyphens, a second call of \<open>_appendCanvas\<close> leaves the tree of the first
  as it is.
\<close>

lemma appendCanvas_twice:
  assumes "bounded d" and "simple_id i" and "plain_target t"
  shows "root (appendCanvas (appendCanvas d t i) t i) = root (appendCanvas d t i)"
proof -
  have nonempty: "i \<noteq> []" using assms(2) by (simp add: simple_id_def)
  define d1 where "d1 = (if jq_find d (jq d t) i = [] then jq_append d (jq d t) (new_canvas i) else d)"
  define ks where "ks = jq d1 (Selector (CHR ''#'' # i))"
  define d2 where "d2 = moveOffscreen d1 ks"
  have first: "appendCanvas d t i = d2"
    by (simp add: appendCanvas_unfold d1_def ks_def d2_def)
  have ks2: "jq d2 (Selector (CHR ''#'' # i)) = ks"
    by (simp add: d2_def moveOffscreen_preserves ks_def)
  have len: "length ks \<le> 1" unfolding ks_def by (rule by_id_length)
  have twice: "root (moveOffscreen d2 ks) = root d2"
    unfolding d2_def using len by (rule moveOffscreen_twice)
  have t2: "jq d2 t = jq d1 t" by (simp add: d2_def moveOffscreen_preserves)
  have find2: "jq_find d2 (jq d2 t) i = [] \<longleftrightarrow> jq_find d1 (jq d1 t) i = []"
  proof -
    have "(jq_find d2 (jq d1 t) i \<noteq> []) = (jq_find d1 (jq d1 t) i \<noteq> [])"
      by (simp only: jq_find_nonempty d2_def moveOffscreen_preserves)
    then show ?thesis by (simp add: t2)
  qed
  define d3 where "d3 = (if jq_find d2 (jq d2 t) i = [] then jq_append d2 (jq d2 t) (new_canvas i) else d2)"
  have second: "appendCanvas d2 t i = moveOffscreen d3 (jq d3 (Selector (CHR ''#'' # i)))"
    by (simp add: appendCanvas_unfold d3_def)
  have r3: "root d3 = root d2"
  proof (cases "jq_find d2 (jq d2 t) i = []")
    case False
    then show ?thesis by (simp add: d3_def)
  next
    case True
    with find2 provision_step [OF assms(1) nonempty assms(3)] have "\<forall>p \<in> set (jq d1 t). \<not> in_document d1 p"
      by (simp add: d1_def)
    then have "\<forall>p \<in> set (jq d2 t). \<not> in_document d2 p"
      by (simp add: t2) (simp add: d2_def moveOffscreen_preserves)
    then have "root (jq_append d2 (jq d2 t) (new_canvas i)) = root d2"
      by (rule jq_append_absent)
    with True show ?thesis by (simp add: d3_def)
  qed
  have "root (moveOffscreen d3 (jq d3 (Selector (CHR ''#'' # i)))) = root (moveOffscreen d2 ks)"
    using same_root(1) [OF r3, of "Selector (CHR ''#'' # i)"] same_root(3) [OF r3, of ks]
    by (simp add: ks2)
  with twice show ?thesis by (simp add: first second)
qed

subsection \<open>The image variant\<close>

lemma step3_again: "appendImage page3 (Element 3) ''img_photo'' = page3_again"
  by (simp add: page3_def page3_again_def dom_defs offscreen_def)

lemma step2_again: "appendCanvas page2 (Selector ''body'') ''scratchCanvas'' = page2"
  by (simp add: page2_def dom_defs offscreen_def)

text \<open>
  C3 at the scratch image of the page. The first call of \<open>_appendImage\<close> puts the image
  after the host element; the second call looks for it among the descendants of the
  host, does not find it there, and puts a second image with the same id after the host.
\<close>

theorem appendImage_twice:
  "appendImage page2 (Element 3) ''img_photo'' = page3
   \<and> appendImage page3 (Element 3) ''img_photo'' = page3_again
   \<and> map key (with_id page3 ''img_photo'') = [6]
   \<and> map key (with_id page3_again ''img_photo'') = [7, 6]"
  by (simp add: step3 step3_again) (simp add: page3_def page3_again_def with_id_def has_id_def)

section \<open>Teardown\<close>

lemma remove_node_key: "key (remove_node p e) = key e"
  by (cases e) simp

lemma remove_node_keys:
  "key ` set (flatten (remove_node p e)) \<subseteq> key ` set (flatten e)"
proof (induction e)
  case (Elem k t i a s ks)
  have "\<And>x. x \<in> set ks \<Longrightarrow> key ` set (flatten (remove_node p x)) \<subseteq> key ` set (flatten x)"
    using Elem.IH by blast
  then show ?case by (fastforce simp add: image_subset_iff)
qed

lemma remove_node_removes:
  "key e \<noteq> p \<Longrightarrow> p \<notin> key ` set (flatten (remove_node p e))"
proof (induction e)
  case (Elem k t i a s ks)
  have "\<And>x. x \<in> set ks \<Longrightarrow> key x \<noteq> p \<Longrightarrow> p \<notin> key ` set (flatten (remove_node p x))"
    using Elem.IH by blast
  with Elem.prems show ?case by auto
qed

lemma jq_remove_root_key: "key (root (jq_remove d el)) = key (root d)"
proof (induction el arbitrary: d)
  case Nil
  show ?case by (simp add: jq_remove_def)
next
  case (Cons p el)
  have "jq_remove d (p # el) = jq_remove (d\<lparr>root := remove_node p (root d)\<rparr>) el"
    by (simp add: jq_remove_def)
  then show ?case by (simp add: Cons.IH remove_node_key)
qed

lemma jq_remove_keys: "in_document (jq_remove d el) k \<Longrightarrow> in_document d k"
proof (induction el arbitrary: d)
  case Nil
  then show ?case by (simp add: jq_remove_def)
next
  case (Cons p el)
  have "jq_remove d (p # el) = jq_remove (d\<lparr>root := remove_node p (root d)\<rparr>) el"
    by (simp add: jq_remove_def)
  with Cons.prems have "in_document (d\<lparr>root := remove_node p (root d)\<rparr>) k"
    using Cons.IH by simp
  then show ?case using remove_node_keys [of p "root d"] by (auto simp add: in_document_keys)
qed

lemma jq_remove_removes:
  "k \<in> set el \<Longrightarrow> k \<noteq> key (root d) \<Longrightarrow> \<not> in_document (jq_remove d el) k"
proof (induction el arbitrary: d)
  case Nil
  then show ?case by simp
next
  case (Cons p el)
  let ?d = "d\<lparr>root := remove_node p (root d)\<rparr>"
  have unfold: "jq_remove d (p # el) = jq_remove ?d el"
    by (simp add: jq_remove_def)
  show ?case
  proof (cases "k = p")
    case True
    with Cons.prems have "\<not> in_document ?d k"
      using remove_node_removes [of "root d" p] by (simp add: in_document_keys)
    then show ?thesis using jq_remove_keys [of ?d el k] by (auto simp add: unfold)
  next
    case False
    with Cons.prems have "k \<in> set el" "k \<noteq> key (root ?d)" by (simp_all add: remove_node_key)
    then show ?thesis using Cons.IH [of ?d] by (simp add: unfold)
  qed
qed

text \<open>
  What \<open>destroy\<close> does remove: the elements held as \<open>$stageEl\<close> and \<open>$scratchCanvasEl\<close>, and
  the element that \<open>$("#" + this.element.id)\<close> finds once they are gone, which is the first
  element of the document with the id of the host. The document node itself has no
  parent and cannot be removed.
\<close>

lemma destroy_removes:
  assumes "k \<noteq> key (root d)"
    and "d2 = jq_remove (jq_remove d (stageEl self)) (scratchCanvasEl self)"
    and "k \<in> set (stageEl self) \<or> k \<in> set (scratchCanvasEl self)
         \<or> (simple_id (id_of d2 (element self))
            \<and> k \<in> set (jq d2 (Selector (CHR ''#'' # id_of d2 (element self)))))"
  shows "\<not> in_document (destroy self d) k"
proof -
  let ?d1 = "jq_remove d (stageEl self)"
  let ?host = "jq d2 (Selector (CHR ''#'' # id_of d2 (element self)))"
  have d: "destroy self d = jq_remove d2 ?host" by (simp add: destroy_def Let_def assms(2))
  have r: "key (root ?d1) = key (root d)" "key (root d2) = key (root d)"
    by (simp_all add: jq_remove_root_key assms(2))
  from assms(3) consider "k \<in> set (stageEl self)" | "k \<in> set (scratchCanvasEl self)"
    | "k \<in> set ?host" by blast
  then show ?thesis
  proof cases
    case 1
    then have "\<not> in_document ?d1 k" using assms(1) by (rule jq_remove_removes)
    then show ?thesis
      using jq_remove_keys [of ?d1 "scratchCanvasEl self" k] jq_remove_keys [of d2 ?host k]
      by (auto simp add: d assms(2))
  next
    case 2
    then have "\<not> in_document d2 k"
      using assms(1) r unfolding assms(2) by (intro jq_remove_removes) simp_all
    then show ?thesis using jq_remove_keys [of d2 ?host k] by (auto simp add: d)
  next
    case 3
    then show ?thesis using assms(1) r by (simp add: d jq_remove_removes)
  qed
qed

lemma destroy_demo: "destroy demo_plugin demo_ready = demo_destroyed"
proof -
  have 1: "jq_remove demo_ready [4] =
     \<lparr> root = Elem 0 ''#document'' [] [] []
         [Elem 1 ''html'' [] [] []
            [Elem 2 ''body'' [] [] []
               [Elem 3 ''img'' ''photo'' [] [] [],
                Elem 6 ''img'' ''img_photo'' [] offscreen [],
                Elem 5 ''canvas'' ''scratchCanvas'' [(''width'', str ''12px''), (''height'', str ''0'')]
                  offscreen []]]],
       next_key = 7 \<rparr>" (is "_ = ?d1")
    by (simp add: demo_ready_def jq_remove_def)
  have 2: "jq_remove ?d1 [5] =
     \<lparr> root = Elem 0 ''#document'' [] [] []
         [Elem 1 ''html'' [] [] []
            [Elem 2 ''body'' [] [] []
               [Elem 3 ''img'' ''photo'' [] [] [],
                Elem 6 ''img'' ''img_photo'' [] offscreen []]]],
       next_key = 7 \<rparr>" (is "_ = ?d2")
    by (simp add: jq_remove_def)
  have 3: "id_of ?d2 3 = ''photo''" by (simp add: id_of_def node_def)
  have 4: "jq ?d2 (Selector ''#photo'') = [3]"
    by (simp add: jq_def by_id_def with_id_def has_id_def)
  have 5: "jq_remove ?d2 [3] = demo_destroyed"
    by (simp add: jq_remove_def demo_destroyed_def)
  have f: "stageEl demo_plugin = [4]" "scratchCanvasEl demo_plugin = [5]" "element demo_plugin = 3"
    by (simp_all add: demo_plugin_def)
  show ?thesis
    unfolding destroy_def Let_def f by (simp only: 1 2 3 4 5)
qed

text \<open>
  C7 at the instance of the page. \<open>destroy\<close> removes the stage canvas, the scratch canvas
  and the host element; the scratch image, which \<open>init\<close> put after the host and holds as
  \<open>$scratchImageEl\<close>, is still in the document.
\<close>

theorem destroy_leaves_scratch_image:
  "init demo_page 3 (settings demo_plugin) = Inr (demo_plugin, demo_ready, [CheckImageLoaded])
   \<and> scratchImageEl demo_plugin = [6]
   \<and> in_document demo_ready 6
   \<and> destroy demo_plugin demo_ready = demo_destroyed
   \<and> in_document demo_destroyed 6"
  by (simp add: init_demo destroy_demo)
     (simp add: demo_plugin_def demo_ready_def demo_destroyed_def in_document_def node_def)

end
